theory Spec2Isabelle
  imports Main "HOL-Library.Sublist" "HOL-Library.AList"
begin

section \<open>Python text primitives used by \<open>d2lepoexport_presentation.py\<close>\<close>

text \<open>
  Text is a \<^typ>\<open>string\<close>, one \<^typ>\<open>char\<close> per character; the model is exact for ASCII
  text, where Python's \<open>str\<close> and \<open>bytes\<close> agree and \<open>decode\<close>/\<open>encode\<close> are the
  identity. Every exception the source can raise is a value of \<open>py_error\<close>, and a
  function that can raise returns \<open>py_error + 'a\<close> with \<open>Inl\<close> for the raise.
\<close>

datatype py_error =
    IndexError
  | KeyError
  | TypeError
  | NameError
  | ValueError
  | HTTPError
  | OtherError

definition isdigit :: "char \<Rightarrow> bool" where
  "isdigit c = (c \<in> set ''0123456789'')"

definition isalpha :: "char \<Rightarrow> bool" where
  "isalpha c = (c \<in> set ''abcdefghijklmnopqrstuvwxyzABCDEFGHIJKLMNOPQRSTUVWXYZ'')"

definition isalnum :: "char \<Rightarrow> bool" where
  "isalnum c = (isdigit c \<or> isalpha c)"

text \<open>\<open>s.find(sub)\<close>: the lowest index at which \<open>sub\<close> starts, or \<open>-1\<close>.\<close>

primrec find_nat :: "string \<Rightarrow> string \<Rightarrow> nat option" where
  "find_nat [] sub = (if sub = [] then Some 0 else None)"
| "find_nat (c # cs) sub =
     (if prefix sub (c # cs) then Some 0 else map_option Suc (find_nat cs sub))"

definition py_find :: "string \<Rightarrow> string \<Rightarrow> int" where
  "py_find s sub = (case find_nat s sub of None \<Rightarrow> - 1 | Some i \<Rightarrow> int i)"

text \<open>\<open>s.find(sub, start)\<close> for a start index \<open>0 \<le> start\<close>.\<close>

definition py_find_from :: "string \<Rightarrow> string \<Rightarrow> nat \<Rightarrow> int" where
  "py_find_from s sub start =
     (if length s < start then - 1
      else case find_nat (drop start s) sub of
             None \<Rightarrow> - 1
           | Some i \<Rightarrow> int (start + i))"

text \<open>\<open>s.rfind(sub)\<close>: the highest index at which \<open>sub\<close> starts, or \<open>-1\<close>.\<close>

primrec rfind_nat :: "string \<Rightarrow> string \<Rightarrow> nat option" where
  "rfind_nat [] sub = (if sub = [] then Some 0 else None)"
| "rfind_nat (c # cs) sub =
     (case rfind_nat cs sub of
        Some i \<Rightarrow> Some (Suc i)
      | None \<Rightarrow> (if prefix sub (c # cs) then Some 0 else None))"

definition py_rfind :: "string \<Rightarrow> string \<Rightarrow> int" where
  "py_rfind s sub = (case rfind_nat s sub of None \<Rightarrow> - 1 | Some i \<Rightarrow> int i)"

text \<open>
  Slices. A negative bound counts from the end and every bound is clipped to the text, so
  a slice never raises.
\<close>

definition clip :: "'a list \<Rightarrow> int \<Rightarrow> nat" where
  "clip s i =
     (if i < 0 then nat (max (i + int (length s)) 0)
      else min (nat i) (length s))"

definition slice_from :: "int \<Rightarrow> 'a list \<Rightarrow> 'a list" where
  "slice_from b s = drop (clip s b) s"

definition slice_to :: "int \<Rightarrow> 'a list \<Rightarrow> 'a list" where
  "slice_to e s = take (clip s e) s"

definition slice :: "int \<Rightarrow> int \<Rightarrow> 'a list \<Rightarrow> 'a list" where
  "slice b e s = take (clip s e - clip s b) (drop (clip s b) s)"

text \<open>\<open>s[0]\<close> and \<open>s[-1]\<close> raise \<open>IndexError\<close> on the empty text.\<close>

definition first_char :: "string \<Rightarrow> py_error + char" where
  "first_char s = (case s of [] \<Rightarrow> Inl IndexError | c # _ \<Rightarrow> Inr c)"

definition last_char :: "string \<Rightarrow> py_error + char" where
  "last_char s = (if s = [] then Inl IndexError else Inr (last s))"

section \<open>Identifier extraction: \<open>get_page_id\<close> and \<open>get_epo_id\<close>\<close>

text \<open>
  Both functions share the loop
  \<^verbatim>\<open>
    endIndex = 0
    nextCharacter = pageId[endIndex]
    while nextCharacter.isdigit():
        endIndex += 1
        nextCharacter = pageId[endIndex]
  \<close>
  \<open>scan_digits s i\<close> is the loop entered with \<open>endIndex = i\<close>, about to read \<open>s[i]\<close>:
  it returns the final \<open>endIndex\<close>, or the \<open>IndexError\<close> of a read past the end.
\<close>

function scan_digits :: "string \<Rightarrow> nat \<Rightarrow> py_error + nat" where
  "scan_digits s i =
     (if length s \<le> i then Inl IndexError
      else if isdigit (s ! i) then scan_digits s (Suc i)
      else Inr i)"
  by pat_completeness auto
termination
  by (relation "measure (\<lambda>(s, i). length s - i)") auto

declare scan_digits.simps [simp del]

definition get_page_id :: "string \<Rightarrow> string \<Rightarrow> py_error + string" where
  "get_page_id onclick objectId =
     (let beginIndex = py_find onclick objectId + int (length objectId) + 1;
          pageId = slice_from beginIndex onclick
      in case scan_digits pageId 0 of
           Inl e \<Rightarrow> Inl e
         | Inr endIndex \<Rightarrow> Inr (slice_to (int endIndex) pageId))"

definition get_epo_id :: "string \<Rightarrow> py_error + string" where
  "get_epo_id href =
     (let beginIndex = py_find href ''contextId='' + int (length ''contextId='');
          epoId = slice_from beginIndex href
      in case scan_digits epoId 0 of
           Inl e \<Rightarrow> Inl e
         | Inr endIndex \<Rightarrow> Inr (slice_to (int endIndex) epoId))"

subsection \<open>What the digit scan computes\<close>

lemma scan_digits_append:
  "list_all isdigit xs \<Longrightarrow>
   scan_digits (xs @ ys) (length xs) =
     (if list_all isdigit ys then Inl IndexError
      else Inr (length xs + length (takeWhile isdigit ys)))"
proof (induction ys arbitrary: xs)
  case Nil
  then show ?case by (simp add: scan_digits.simps)
next
  case (Cons y ys)
  show ?case
  proof (cases "isdigit y")
    case True
    have "scan_digits (xs @ y # ys) (length xs) = scan_digits ((xs @ [y]) @ ys) (length (xs @ [y]))"
      using True by (subst scan_digits.simps) simp
    also have "\<dots> = (if list_all isdigit ys then Inl IndexError
                     else Inr (length (xs @ [y]) + length (takeWhile isdigit ys)))"
      using Cons.prems True by (intro Cons.IH) simp
    finally show ?thesis using True by simp
  next
    case False
    then show ?thesis by (subst scan_digits.simps) simp
  qed
qed

lemma scan_digits_0:
  "scan_digits s 0 =
     (if list_all isdigit s then Inl IndexError else Inr (length (takeWhile isdigit s)))"
  using scan_digits_append [of "[]" s] by simp

lemma take_length_takeWhile: "take (length (takeWhile P s)) s = takeWhile P s"
  by (induction s) auto

lemma get_page_id_eq:
  "get_page_id onclick objectId =
     (let rest = slice_from (py_find onclick objectId + int (length objectId) + 1) onclick
      in if list_all isdigit rest then Inl IndexError else Inr (takeWhile isdigit rest))"
  by (simp add: get_page_id_def Let_def scan_digits_0 slice_to_def clip_def
      take_length_takeWhile length_takeWhile_le)

lemma get_epo_id_eq:
  "get_epo_id href =
     (let rest = slice_from (py_find href ''contextId='' + 10) href
      in if list_all isdigit rest then Inl IndexError else Inr (takeWhile isdigit rest))"
  by (simp add: get_epo_id_def Let_def scan_digits_0 slice_to_def clip_def
      take_length_takeWhile length_takeWhile_le)

lemma drop_clip_nat: "slice_from (int n) s = drop n s"
  by (simp add: slice_from_def clip_def min_def)

lemma get_page_id_digit_run:
  assumes "py_find onclick objectId = int i"
    and "drop (i + length objectId + 1) onclick = ds @ c # rest"
    and "list_all isdigit ds" and "\<not> isdigit c"
  shows "get_page_id onclick objectId = Inr ds"
proof -
  have "py_find onclick objectId + int (length objectId) + 1 = int (i + length objectId + 1)"
    using assms(1) by simp
  then have rest: "slice_from (py_find onclick objectId + int (length objectId) + 1) onclick
      = ds @ c # rest"
    using assms(2) by (simp only: drop_clip_nat)
  have "takeWhile isdigit (ds @ c # rest) = ds"
    using assms(3,4) by (simp add: takeWhile_tail list_all_iff)
  then show ?thesis
    using assms(4) by (simp add: get_page_id_eq rest)
qed

subsection \<open>The marker is absent\<close>

text \<open>
  Neither function tests the result of \<open>find\<close>. With the marker absent \<open>find\<close> is \<open>-1\<close>,
  so \<open>beginIndex\<close> is \<open>len(objectId)\<close> in \<open>get_page_id\<close> and \<open>9\<close> in \<open>get_epo_id\<close>, and the
  digit scan starts there in the text that was given.
\<close>

text \<open>
  Claim C2, as stated: with the marker absent the extraction returns none or the empty
  text. It fails: the digits found at the fixed offset are returned as an identifier.
\<close>

theorem absent_marker_counterexample:
  "py_find ''Go(25,5678);'' ''999'' = - 1
   \<and> get_page_id ''Go(25,5678);'' ''999'' = Inr ''25''
   \<and> py_find ''/d2l/img/4711/a.png'' ''contextId='' = - 1
   \<and> get_epo_id ''/d2l/img/4711/a.png'' = Inr ''4711''"
  by (simp add: get_page_id_eq get_epo_id_eq py_find_def slice_from_def clip_def isdigit_def)

text \<open>
  Claim C2, amended: with the marker absent, \<open>get_page_id\<close> scans the text from index
  \<open>len(objectId)\<close> and \<open>get_epo_id\<close> from index \<open>9\<close>; where a character that is not a
  digit ends the scan, the result is the run of digits found at that index, which is empty
  only when the character at the index is itself no digit.
\<close>

theorem absent_marker_scans_fixed_offset:
  "(py_find onclick objectId = - 1 \<and> \<not> list_all isdigit (drop (length objectId) onclick)
      \<longrightarrow> get_page_id onclick objectId
            = Inr (takeWhile isdigit (drop (length objectId) onclick)))
   \<and> (py_find href ''contextId='' = - 1 \<and> \<not> list_all isdigit (drop 9 href)
      \<longrightarrow> get_epo_id href = Inr (takeWhile isdigit (drop 9 href)))"
proof -
  have "slice_from (- 1 + int (length objectId) + 1) onclick = drop (length objectId) onclick"
    using drop_clip_nat [of "length objectId" onclick] by simp
  moreover have "slice_from (- 1 + 10) href = drop 9 href"
    using drop_clip_nat [of 9 href] by simp
  ultimately show ?thesis
    by (simp add: get_page_id_eq get_epo_id_eq)
qed

theorem absent_marker_scans_fixed_offset_witness:
  "py_find ''Go(25,5678);'' ''999'' = - 1
   \<and> \<not> list_all isdigit (drop (length ''999'') ''Go(25,5678);'')
   \<and> get_page_id ''Go(25,5678);'' ''999''
       = Inr (takeWhile isdigit (drop (length ''999'') ''Go(25,5678);''))
   \<and> py_find ''/d2l/img/x.png'' ''contextId='' = - 1
   \<and> \<not> list_all isdigit (drop 9 ''/d2l/img/x.png'')
   \<and> get_epo_id ''/d2l/img/x.png'' = Inr (takeWhile isdigit (drop 9 ''/d2l/img/x.png''))
   \<and> takeWhile isdigit (drop 9 ''/d2l/img/x.png'') = []"
proof -
  have h1: "py_find ''Go(25,5678);'' ''999'' = - 1
      \<and> \<not> list_all isdigit (drop (length ''999'') ''Go(25,5678);'')"
    by (simp add: py_find_def isdigit_def)
  have h2: "py_find ''/d2l/img/x.png'' ''contextId='' = - 1
      \<and> \<not> list_all isdigit (drop 9 ''/d2l/img/x.png'')"
    by (simp add: py_find_def isdigit_def)
  have h3: "takeWhile isdigit (drop 9 ''/d2l/img/x.png'') = []"
    by (simp add: isdigit_def)
  show ?thesis
    using absent_marker_scans_fixed_offset
      [of "''Go(25,5678);''" "''999''" "''/d2l/img/x.png''"] h1 h2 h3
    by blast
qed

subsection \<open>The digit run reaches the end of the text\<close>

text \<open>
  Claim C7: \<open>get_page_id\<close> returns the run of digits after the root id and its separator,
  whatever follows the run, also when the text ends with the run. The loop reads
  \<open>pageId[endIndex]\<close> without a bound: with a character after the run the run is returned
  (\<open>get_page_id_digit_run\<close>), and with the text ending in the run the read past the end
  raises \<open>IndexError\<close>.
\<close>

theorem get_page_id_end_of_text:
  "get_page_id ''GotoPage(1234,5678abc'' ''1234'' = Inr ''5678''
   \<and> get_page_id ''GotoPage(1234,5678'' ''1234'' = Inl IndexError"
  by (simp add: get_page_id_eq py_find_def slice_from_def clip_def isdigit_def)

section \<open>Rewriting a stylesheet: \<open>update_css_file\<close>\<close>

text \<open>
  The module constant. Every function that reads it takes the domain as its first argument,
  since the source asks for the constant to be set to the domain in use.
\<close>

definition DOMAIN :: string where
  "DOMAIN = ''https://uwosh-beta.courses.wisconsin.edu''"

text \<open>\<open>count = 0; while url[count] != "/": count += 1\<close>\<close>

function find_slash :: "string \<Rightarrow> nat \<Rightarrow> py_error + nat" where
  "find_slash url count =
     (if length url \<le> count then Inl IndexError
      else if url ! count \<noteq> CHR ''/'' then find_slash url (Suc count)
      else Inr count)"
  by pat_completeness auto
termination
  by (relation "measure (\<lambda>(url, count). length url - count)") auto

declare find_slash.simps [simp del]

lemma slice_to_minus_1: "slice_to (- 1) s = butlast s"
proof -
  have "nat (max (- 1 + int (length s)) 0) = length s - 1"
    by (cases s) auto
  then show ?thesis
    by (simp add: slice_to_def clip_def butlast_conv_take)
qed

text \<open>\<open>while not address[-1].isalnum(): address = address[:-1]\<close>\<close>

function trim_address :: "string \<Rightarrow> py_error + string" where
  "trim_address address =
     (case last_char address of
        Inl e \<Rightarrow> Inl e
      | Inr c \<Rightarrow> (if \<not> isalnum c then trim_address (slice_to (- 1) address)
                  else Inr address))"
  by pat_completeness auto
termination
  by (relation "measure length")
    (auto simp: last_char_def slice_to_minus_1 split: if_splits)

declare trim_address.simps [simp del]

text \<open>The three branches that turn the argument of \<open>url(...)\<close> into the address to fetch.\<close>

definition css_address :: "string \<Rightarrow> string \<Rightarrow> string \<Rightarrow> py_error + string" where
  "css_address domain cssUrl url =
     (case first_char url of
        Inl e \<Rightarrow> Inl e
      | Inr c \<Rightarrow>
          if c = CHR ''/'' then Inr (domain @ url)
          else if isalnum c then
            Inr (slice_to (py_rfind cssUrl ''/'') cssUrl @ (''/'' @ url))
          else
            (case find_slash url 0 of
               Inl e \<Rightarrow> Inl e
             | Inr count \<Rightarrow> trim_address (domain @ slice_from (int count) url)))"

text \<open>The name of the local file: \<open>newAddress\<close>.\<close>

definition local_name :: "string \<Rightarrow> string" where
  "local_name address =
     (let newAddress = slice_from (py_rfind address ''/'' + 1) address
      in if py_find newAddress ''?'' > 0
         then slice_to (py_find newAddress ''?'') newAddress
         else newAddress)"

text \<open>
  \<open>urlretrieve\<close> is the network: an argument that tells, for an address and a file name,
  whether the download returns (\<open>None\<close>) or raises. The run records the lines written to
  the file, the downloads made and the lines printed.
\<close>

record css_run =
  written :: "string list"
  retrieved :: "(string \<times> string) list"
  printed :: "string list"

definition update_css_line ::
  "string \<Rightarrow> string \<Rightarrow> (string \<Rightarrow> string \<Rightarrow> py_error option) \<Rightarrow> css_run \<Rightarrow> string
     \<Rightarrow> py_error + css_run" where
  "update_css_line domain cssUrl urlretrieve run line =
     (let contains_link = py_find line ''url(''
      in if contains_link \<noteq> - 1 then
           (let beginIndex = contains_link + 4;
                endIndex = py_find_from line '')'' (nat beginIndex);
                url = slice beginIndex endIndex line
            in case css_address domain cssUrl url of
                 Inl e \<Rightarrow> Inl e
               | Inr address \<Rightarrow>
                   (let newAddress = local_name address;
                        line' = slice_to beginIndex line @ newAddress @ slice_from endIndex line
                    in case urlretrieve address newAddress of
                         None \<Rightarrow>
                           Inr (run\<lparr>written := written run @ [line'],
                                    retrieved := retrieved run @ [(address, newAddress)]\<rparr>)
                       | Some e \<Rightarrow>
                           if e = HTTPError then
                             Inr (run\<lparr>written := written run @ [line'],
                                      printed := printed run
                                        @ [''<class 'urllib.error.HTTPError'>'']\<rparr>)
                           else Inl e))
         else Inr (run\<lparr>written := written run @ [line]\<rparr>))"

fun css_lines ::
  "string \<Rightarrow> string \<Rightarrow> (string \<Rightarrow> string \<Rightarrow> py_error option) \<Rightarrow> css_run \<Rightarrow> string list
     \<Rightarrow> py_error + css_run" where
  "css_lines domain cssUrl urlretrieve run [] = Inr run"
| "css_lines domain cssUrl urlretrieve run (line # temp) =
     (case update_css_line domain cssUrl urlretrieve run line of
        Inl e \<Rightarrow> Inl e
      | Inr run' \<Rightarrow> css_lines domain cssUrl urlretrieve run' temp)"

definition update_css_file ::
  "string \<Rightarrow> string \<Rightarrow> (string \<Rightarrow> string \<Rightarrow> py_error option) \<Rightarrow> string list
     \<Rightarrow> py_error + css_run" where
  "update_css_file domain cssUrl urlretrieve temp =
     css_lines domain cssUrl urlretrieve \<lparr>written = [], retrieved = [], printed = []\<rparr> temp"

subsection \<open>Searching for one character\<close>

lemma length_takeWhile_less_ex:
  "\<exists>x\<in>set xs. \<not> P x \<Longrightarrow> length (takeWhile P xs) < length xs"
  by (induction xs) auto

lemma takeWhile_neq_all: "a \<notin> set s \<Longrightarrow> takeWhile (\<lambda>c. c \<noteq> a) s = s"
  by (induction s) auto

lemma slice_to_nat: "slice_to (int n) s = take n s"
  by (simp add: slice_to_def clip_def min_def)

lemma find_nat_char:
  "find_nat s [a] =
     (if a \<in> set s then Some (length (takeWhile (\<lambda>c. c \<noteq> a) s)) else None)"
  by (induction s) auto

lemma rfind_nat_char:
  "rfind_nat s [a] =
     (if a \<in> set s
      then Some (length s - 1 - length (takeWhile (\<lambda>c. c \<noteq> a) (rev s)))
      else None)"
proof (induction s)
  case Nil
  then show ?case by simp
next
  case (Cons c cs)
  show ?case
  proof (cases "a \<in> set cs")
    case True
    then have "length (takeWhile (\<lambda>c. c \<noteq> a) (rev cs)) < length cs"
      using length_takeWhile_less_ex [of "rev cs" "\<lambda>c. c \<noteq> a"] by auto
    moreover have "takeWhile (\<lambda>c. c \<noteq> a) (rev cs @ [c]) = takeWhile (\<lambda>c. c \<noteq> a) (rev cs)"
      using True by (intro takeWhile_append1 [of a]) auto
    ultimately show ?thesis using True Cons.IH by simp
  next
    case False
    then have "takeWhile (\<lambda>c. c \<noteq> a) (rev cs @ [c]) = rev cs @ takeWhile (\<lambda>c. c \<noteq> a) [c]"
      by (intro takeWhile_append2) auto
    then show ?thesis using False Cons.IH by auto
  qed
qed

subsection \<open>The loops of the address resolution\<close>

lemma find_slash_append:
  "CHR ''/'' \<notin> set xs \<Longrightarrow>
   find_slash (xs @ ys) (length xs) =
     (if CHR ''/'' \<in> set ys
      then Inr (length xs + length (takeWhile (\<lambda>c. c \<noteq> CHR ''/'') ys))
      else Inl IndexError)"
proof (induction ys arbitrary: xs)
  case Nil
  then show ?case by (simp add: find_slash.simps)
next
  case (Cons y ys)
  show ?case
  proof (cases "y = CHR ''/''")
    case True
    then show ?thesis by (subst find_slash.simps) simp
  next
    case False
    have "find_slash (xs @ y # ys) (length xs) = find_slash ((xs @ [y]) @ ys) (length (xs @ [y]))"
      using False by (subst find_slash.simps) simp
    also have "\<dots> = (if CHR ''/'' \<in> set ys
        then Inr (length (xs @ [y]) + length (takeWhile (\<lambda>c. c \<noteq> CHR ''/'') ys))
        else Inl IndexError)"
      using Cons.prems False by (intro Cons.IH) simp
    finally show ?thesis using False by simp
  qed
qed

lemma find_slash_0:
  "find_slash url 0 =
     (if CHR ''/'' \<in> set url
      then Inr (length (takeWhile (\<lambda>c. c \<noteq> CHR ''/'') url))
      else Inl IndexError)"
  using find_slash_append [of "[]" url] by simp

lemma trim_address_snoc:
  "trim_address (xs @ [x]) = (if isalnum x then Inr (xs @ [x]) else trim_address xs)"
  by (subst trim_address.simps) (simp add: last_char_def slice_to_minus_1)

lemma trim_address_eq:
  "trim_address s =
     (if list_ex isalnum s
      then Inr (rev (dropWhile (\<lambda>c. \<not> isalnum c) (rev s)))
      else Inl IndexError)"
proof (induction s rule: rev_induct)
  case Nil
  then show ?case by (subst trim_address.simps) (simp add: last_char_def)
next
  case (snoc x xs)
  then show ?case by (simp add: trim_address_snoc)
qed

subsection \<open>The local file name, in the words of the specification\<close>

text \<open>
  The specification names the local file after the final path segment of the address,
  the query string removed. These two definitions follow its words; \<open>local_name_eq\<close>
  compares them with what the source computes.
\<close>

definition final_segment :: "string \<Rightarrow> string" where
  "final_segment s = rev (takeWhile (\<lambda>c. c \<noteq> CHR ''/'') (rev s))"

definition strip_query :: "string \<Rightarrow> string" where
  "strip_query s = takeWhile (\<lambda>c. c \<noteq> CHR ''?'') s"

lemma after_rfind_char:
  "slice_from (py_rfind s [a] + 1) s = rev (takeWhile (\<lambda>c. c \<noteq> a) (rev s))"
proof (cases "a \<in> set s")
  case True
  define k where "k = length (takeWhile (\<lambda>c. c \<noteq> a) (rev s))"
  have k: "k < length s"
    unfolding k_def using True length_takeWhile_less_ex [of "rev s" "\<lambda>c. c \<noteq> a"] by auto
  have "py_rfind s [a] + 1 = int (length s - k)"
    using True k by (simp add: py_rfind_def rfind_nat_char k_def [symmetric])
  then have "slice_from (py_rfind s [a] + 1) s = drop (length s - k) s"
    by (simp only: drop_clip_nat)
  also have "\<dots> = rev (take k (rev s))"
    by (simp add: take_rev)
  also have "\<dots> = rev (takeWhile (\<lambda>c. c \<noteq> a) (rev s))"
    unfolding k_def by (simp only: take_length_takeWhile)
  finally show ?thesis .
next
  case False
  then have tw: "takeWhile (\<lambda>c. c \<noteq> a) (rev s) = rev s"
    by (intro takeWhile_neq_all) simp
  show ?thesis
    using False by (simp add: py_rfind_def rfind_nat_char slice_from_def clip_def tw)
qed

lemma local_name_eq:
  "local_name address =
     (if prefix ''?'' (final_segment address) then final_segment address
      else strip_query (final_segment address))"
proof -
  define seg where "seg = final_segment address"
  have seg: "slice_from (py_rfind address ''/'' + 1) address = seg"
    unfolding seg_def final_segment_def by (rule after_rfind_char)
  show ?thesis
  proof (cases "CHR ''?'' \<in> set seg")
    case True
    then obtain c cs where cs: "seg = c # cs" by (cases seg) auto
    have "find_nat seg ''?'' = Some (length (takeWhile (\<lambda>c. c \<noteq> CHR ''?'') seg))"
      using True by (simp add: find_nat_char)
    then have f: "py_find seg ''?'' = int (length (takeWhile (\<lambda>c. c \<noteq> CHR ''?'') seg))"
      by (simp add: py_find_def)
    show ?thesis
    proof (cases "c = CHR ''?''")
      case True
      then show ?thesis
        using cs f by (simp add: local_name_def seg seg_def [symmetric])
    next
      case False
      then have "0 < py_find seg ''?''"
        using cs f by simp
      then show ?thesis
        using False cs f
        by (simp add: local_name_def seg seg_def [symmetric] slice_to_nat
            take_length_takeWhile strip_query_def del: takeWhile.simps)
    qed
  next
    case False
    then have tw: "takeWhile (\<lambda>c. c \<noteq> CHR ''?'') seg = seg"
      by (rule takeWhile_neq_all)
    have "find_nat seg ''?'' = None"
      using False by (simp add: find_nat_char)
    then have "py_find seg ''?'' = - 1"
      by (simp add: py_find_def)
    moreover have "\<not> prefix ''?'' seg"
      using False by (cases seg) auto
    ultimately show ?thesis
      by (simp add: local_name_def seg seg_def [symmetric] strip_query_def tw)
  qed
qed

lemmas css_eval =
  update_css_file_def update_css_line_def css_address_def local_name_eq final_segment_def
  strip_query_def first_char_def py_find_def py_find_from_def py_rfind_def rfind_nat_char
  slice_def slice_to_def slice_from_def clip_def Let_def isalnum_def isdigit_def isalpha_def
  find_slash_0 trim_address_eq

lemma css_example_domain_path:
  "update_css_file ''https://example.org'' ''https://example.org/css/theme.css'' (\<lambda>_ _. None)
     [''background: url(/images/bg.png);'']
   = Inr \<lparr>written = [''background: url(bg.png);''],
          retrieved = [(''https://example.org/images/bg.png'', ''bg.png'')],
          printed = []\<rparr>"
  by (simp add: css_eval)

lemma css_example_same_directory:
  "update_css_file ''https://example.org'' ''https://example.org/css/theme.css'' (\<lambda>_ _. None)
     [''url(icon.png?v=2)'']
   = Inr \<lparr>written = [''url(icon.png)''],
          retrieved = [(''https://example.org/css/icon.png?v=2'', ''icon.png'')],
          printed = []\<rparr>"
  by (simp add: css_eval)

lemma css_address_slash:
  "css_address domain cssUrl (CHR ''/'' # rest) = Inr (domain @ CHR ''/'' # rest)"
  by (simp add: css_address_def first_char_def)

lemma not_alnum_slash: "\<not> isalnum CHR ''/''"
  by (simp add: isalnum_def isdigit_def isalpha_def)

lemma css_address_alnum:
  "isalnum c \<Longrightarrow> css_address domain cssUrl (c # rest)
     = Inr (slice_to (py_rfind cssUrl ''/'') cssUrl @ ''/'' @ c # rest)"
  using not_alnum_slash by (auto simp: css_address_def first_char_def)

lemma css_address_other:
  assumes "q \<noteq> CHR ''/''" "\<not> isalnum q" "CHR ''/'' \<notin> set pre"
  shows "css_address domain cssUrl (q # pre @ CHR ''/'' # post)
     = trim_address (domain @ CHR ''/'' # post)"
proof -
  have "takeWhile (\<lambda>c. c \<noteq> CHR ''/'') (q # pre @ CHR ''/'' # post) = q # pre"
    using assms(1,3) by (auto simp: takeWhile_tail)
  then have "find_slash (q # pre @ CHR ''/'' # post) 0 = Inr (length (q # pre))"
    by (simp add: find_slash_0 del: takeWhile.simps takeWhile_append2)
  moreover have "slice_from (int (length (q # pre))) (q # pre @ CHR ''/'' # post) = CHR ''/'' # post"
    by (simp only: drop_clip_nat) simp
  ultimately show ?thesis
    using assms(1,2) by (simp add: css_address_def first_char_def del: length_Cons list.size)
qed


subsection \<open>Resolving the argument of \<open>url(...)\<close>\<close>

text \<open>
  Claim C6, as stated: \<open>url(icon.png?v=2)\<close> in
  \<open>https://example.org/css/theme.css\<close> resolves to \<open>https://example.org/css/icon.png\<close>.
  It fails: the query string is cut from the local file name only, and the address that is
  fetched keeps it.
\<close>

theorem css_query_kept_counterexample:
  "css_address ''https://example.org'' ''https://example.org/css/theme.css'' ''icon.png?v=2''
     = Inr ''https://example.org/css/icon.png?v=2''
   \<and> css_address ''https://example.org'' ''https://example.org/css/theme.css'' ''icon.png?v=2''
     \<noteq> Inr ''https://example.org/css/icon.png''
   \<and> map_sum id retrieved
        (update_css_file ''https://example.org'' ''https://example.org/css/theme.css''
          (\<lambda>_ _. None) [''url(icon.png?v=2)''])
     = Inr [(''https://example.org/css/icon.png?v=2'', ''icon.png'')]"
  by (simp add: css_example_same_directory)
    (simp add: css_address_def first_char_def py_rfind_def rfind_nat_char slice_to_def clip_def
      isalnum_def isalpha_def isdigit_def)

text \<open>
  Claim C6, amended: the argument of \<open>url(...)\<close> resolves by the first rule that applies.
  A leading \<open>/\<close> gives the domain followed by the argument. A leading letter or digit
  gives the address of the stylesheet up to its last \<open>/\<close>, a \<open>/\<close> and the argument.
  Any other leading character gives the domain followed by the argument from its first
  \<open>/\<close> on, with the characters after the last letter or digit removed. The argument's
  query string stays in the address. The local file name is the text after the last \<open>/\<close>
  of the address, cut at its first \<open>?\<close> unless it begins with \<open>?\<close>. So
  \<open>url(/images/bg.png)\<close> with domain \<open>https://example.org\<close> resolves to
  \<open>https://example.org/images/bg.png\<close>, local name \<open>bg.png\<close>, and
  \<open>url(icon.png?v=2)\<close> in \<open>https://example.org/css/theme.css\<close> resolves to
  \<open>https://example.org/css/icon.png?v=2\<close>, local name \<open>icon.png\<close>.
\<close>

theorem css_reference_resolution:
  "css_address domain cssUrl (CHR ''/'' # rest) = Inr (domain @ CHR ''/'' # rest)
   \<and> (isalnum c \<longrightarrow>
        css_address domain cssUrl (c # rest)
          = Inr (slice_to (py_rfind cssUrl ''/'') cssUrl @ ''/'' @ c # rest))
   \<and> (q \<noteq> CHR ''/'' \<and> \<not> isalnum q \<and> CHR ''/'' \<notin> set pre
        \<and> list_ex isalnum (domain @ post) \<longrightarrow>
        css_address domain cssUrl (q # pre @ CHR ''/'' # post)
          = Inr (rev (dropWhile (\<lambda>c. \<not> isalnum c) (rev (domain @ CHR ''/'' # post)))))
   \<and> local_name address
        = (if prefix ''?'' (final_segment address) then final_segment address
           else strip_query (final_segment address))
   \<and> update_css_file ''https://example.org'' ''https://example.org/css/theme.css'' (\<lambda>_ _. None)
         [''background: url(/images/bg.png);'']
       = Inr \<lparr>written = [''background: url(bg.png);''],
              retrieved = [(''https://example.org/images/bg.png'', ''bg.png'')],
              printed = []\<rparr>
   \<and> update_css_file ''https://example.org'' ''https://example.org/css/theme.css'' (\<lambda>_ _. None)
         [''url(icon.png?v=2)'']
       = Inr \<lparr>written = [''url(icon.png)''],
              retrieved = [(''https://example.org/css/icon.png?v=2'', ''icon.png'')],
              printed = []\<rparr>"
proof (intro conjI impI)
  show "css_address domain cssUrl (CHR ''/'' # rest) = Inr (domain @ CHR ''/'' # rest)"
    by (rule css_address_slash)
  show "css_address domain cssUrl (c # rest)
      = Inr (slice_to (py_rfind cssUrl ''/'') cssUrl @ ''/'' @ c # rest)" if "isalnum c"
    using that by (rule css_address_alnum)
  show "css_address domain cssUrl (q # pre @ CHR ''/'' # post)
      = Inr (rev (dropWhile (\<lambda>c. \<not> isalnum c) (rev (domain @ CHR ''/'' # post))))"
    if "q \<noteq> CHR ''/'' \<and> \<not> isalnum q \<and> CHR ''/'' \<notin> set pre \<and> list_ex isalnum (domain @ post)"
  proof -
    have "list_ex isalnum (domain @ CHR ''/'' # post)"
      using that by (auto simp: list_ex_iff)
    then have "trim_address (domain @ CHR ''/'' # post)
        = Inr (rev (dropWhile (\<lambda>c. \<not> isalnum c) (rev (domain @ CHR ''/'' # post))))"
      by (simp only: trim_address_eq if_True)
    moreover have "css_address domain cssUrl (q # pre @ CHR ''/'' # post)
        = trim_address (domain @ CHR ''/'' # post)"
      using that by (intro css_address_other) auto
    ultimately show ?thesis by simp
  qed
  show "local_name address
      = (if prefix ''?'' (final_segment address) then final_segment address
         else strip_query (final_segment address))"
    by (rule local_name_eq)
  show "update_css_file ''https://example.org'' ''https://example.org/css/theme.css'' (\<lambda>_ _. None)
         [''background: url(/images/bg.png);'']
       = Inr \<lparr>written = [''background: url(bg.png);''],
              retrieved = [(''https://example.org/images/bg.png'', ''bg.png'')],
              printed = []\<rparr>"
    by (rule css_example_domain_path)
  show "update_css_file ''https://example.org'' ''https://example.org/css/theme.css'' (\<lambda>_ _. None)
         [''url(icon.png?v=2)'']
       = Inr \<lparr>written = [''url(icon.png)''],
              retrieved = [(''https://example.org/css/icon.png?v=2'', ''icon.png'')],
              printed = []\<rparr>"
    by (rule css_example_same_directory)
qed

theorem css_reference_resolution_witness:
  "isalnum CHR ''i''
   \<and> css_address ''https://example.org'' ''https://example.org/css/theme.css'' ''icon.png?v=2''
       = Inr (slice_to (py_rfind ''https://example.org/css/theme.css'' ''/'')
               ''https://example.org/css/theme.css'' @ ''/'' @ ''icon.png?v=2'')
   \<and> CHR 0x22 \<noteq> CHR ''/'' \<and> \<not> isalnum (CHR 0x22) \<and> CHR ''/'' \<notin> set ''..''
   \<and> list_ex isalnum (''https://example.org'' @ (''img/a.png'' @ [CHR 0x22]))
   \<and> css_address ''https://example.org'' ''https://example.org/css/theme.css''
         (CHR 0x22 # ''..'' @ CHR ''/'' # (''img/a.png'' @ [CHR 0x22]))
       = Inr (rev (dropWhile (\<lambda>c. \<not> isalnum c)
               (rev (''https://example.org'' @ CHR ''/'' # (''img/a.png'' @ [CHR 0x22])))))"
proof -
  have h1: "isalnum CHR ''i''"
    by (simp add: isalnum_def isalpha_def isdigit_def)
  have h2: "CHR 0x22 \<noteq> CHR ''/'' \<and> \<not> isalnum (CHR 0x22) \<and> CHR ''/'' \<notin> set ''..''
      \<and> list_ex isalnum (''https://example.org'' @ (''img/a.png'' @ [CHR 0x22]))"
    by (simp add: isalnum_def isalpha_def isdigit_def)
  show ?thesis
    using h1 h2
      css_reference_resolution [of "''https://example.org''" "''https://example.org/css/theme.css''"
        "''con.png?v=2''" "CHR ''i''" "CHR 0x22" "''..''" "''img/a.png'' @ [CHR 0x22]" "[]"]
    by blast
qed

subsection \<open>A fetch that fails\<close>

lemma update_css_line_http:
  assumes "\<forall>address name. urlretrieve address name = None \<or> urlretrieve address name = Some HTTPError"
    and "written run = written run0"
  shows "(case update_css_line domain cssUrl urlretrieve run line of
            Inl e \<Rightarrow> update_css_line domain cssUrl (\<lambda>_ _. None) run0 line = Inl e
          | Inr run' \<Rightarrow>
              (\<exists>run0'. update_css_line domain cssUrl (\<lambda>_ _. None) run0 line = Inr run0'
                 \<and> written run' = written run0'
                 \<and> length (written run') = Suc (length (written run))))"
proof (cases "py_find line ''url('' = - 1")
  case True
  then show ?thesis using assms(2) by (simp add: update_css_line_def)
next
  case False
  show ?thesis
  proof (cases "css_address domain cssUrl
      (slice (py_find line ''url('' + 4) (py_find_from line '')'' (nat (py_find line ''url('' + 4)))
        line)")
    case (Inl e)
    then show ?thesis using False by (simp add: update_css_line_def Let_def)
  next
    case (Inr address)
    from assms(1) have "urlretrieve address (local_name address) = None
        \<or> urlretrieve address (local_name address) = Some HTTPError"
      by blast
    then show ?thesis
      using False Inr assms(2) by (auto simp: update_css_line_def Let_def)
  qed
qed

lemma css_lines_http:
  assumes "\<forall>address name. urlretrieve address name = None \<or> urlretrieve address name = Some HTTPError"
    and "written run = written run0"
  shows "(case css_lines domain cssUrl urlretrieve run temp of
            Inl e \<Rightarrow> css_lines domain cssUrl (\<lambda>_ _. None) run0 temp = Inl e
          | Inr run' \<Rightarrow>
              (\<exists>run0'. css_lines domain cssUrl (\<lambda>_ _. None) run0 temp = Inr run0'
                 \<and> written run' = written run0'
                 \<and> length (written run') = length (written run) + length temp))"
  using assms(2)
proof (induction temp arbitrary: run run0)
  case Nil
  then show ?case by simp
next
  case (Cons line temp)
  show ?case
  proof (cases "update_css_line domain cssUrl urlretrieve run line")
    case (Inl e)
    then show ?thesis
      using update_css_line_http [OF assms(1) Cons.prems, of domain cssUrl line] by simp
  next
    case (Inr run')
    then obtain run0' where r0: "update_css_line domain cssUrl (\<lambda>_ _. None) run0 line = Inr run0'"
      "written run' = written run0'" "length (written run') = Suc (length (written run))"
      using update_css_line_http [OF assms(1) Cons.prems, of domain cssUrl line] by auto
    show ?thesis
      using Cons.IH [OF r0(2)] Inr r0 by (auto split: sum.splits)
  qed
qed

lemma css_example_http_error:
  "update_css_file ''https://example.org'' ''https://example.org/css/theme.css''
     (\<lambda>_ _. Some HTTPError) [''a { background: url(/images/bg.png); }'', ''b { color: red; }'']
   = Inr \<lparr>written = [''a { background: url(bg.png); }'', ''b { color: red; }''],
          retrieved = [],
          printed = [''<class 'urllib.error.HTTPError'>'']\<rparr>"
  by (simp add: css_eval)

lemma css_example_other_error:
  "update_css_file ''https://example.org'' ''https://example.org/css/theme.css''
     (\<lambda>_ _. Some OtherError) [''a { background: url(/images/bg.png); }'', ''b { color: red; }'']
   = Inl OtherError"
  by (simp add: css_eval)

lemma update_css_file_http:
  assumes "\<forall>address name. urlretrieve address name = None \<or> urlretrieve address name = Some HTTPError"
  shows "(case update_css_file domain cssUrl urlretrieve temp of
            Inl e \<Rightarrow> update_css_file domain cssUrl (\<lambda>_ _. None) temp = Inl e
          | Inr run \<Rightarrow>
              (\<exists>run0. update_css_file domain cssUrl (\<lambda>_ _. None) temp = Inr run0
                 \<and> written run = written run0
                 \<and> length (written run) = length temp))"
  using css_lines_http [OF assms, of "\<lparr>written = [], retrieved = [], printed = []\<rparr>"
      "\<lparr>written = [], retrieved = [], printed = []\<rparr>" domain cssUrl temp]
  by (auto simp: update_css_file_def split: sum.splits)

subsection \<open>What one line of the file becomes\<close>

lemma clip_nat: "clip s (int n) = min n (length s)"
  by (simp add: clip_def)

lemma update_css_line_reference:
  assumes line: "line = pre @ ''url('' @ arg @ '')'' @ post"
    and first: "py_find line ''url('' = int (length pre)"
    and close: "CHR '')'' \<notin> set arg"
  shows "update_css_line domain cssUrl urlretrieve run line =
     (case css_address domain cssUrl arg of
        Inl e \<Rightarrow> Inl e
      | Inr address \<Rightarrow>
          (case urlretrieve address (local_name address) of
             None \<Rightarrow>
               Inr (run\<lparr>written := written run
                          @ [pre @ ''url('' @ local_name address @ '')'' @ post],
                        retrieved := retrieved run @ [(address, local_name address)]\<rparr>)
           | Some e \<Rightarrow>
               if e = HTTPError then
                 Inr (run\<lparr>written := written run
                            @ [pre @ ''url('' @ local_name address @ '')'' @ post],
                          printed := printed run @ [''<class 'urllib.error.HTTPError'>'']\<rparr>)
               else Inl e))"
proof -
  let ?b = "length pre + 4"
  have b: "py_find line ''url('' + 4 = int ?b"
    using first by simp
  have d: "drop ?b line = arg @ CHR '')'' # post"
    by (simp add: line)
  have "takeWhile (\<lambda>c. c \<noteq> CHR '')'') (arg @ CHR '')'' # post) = arg"
    using close by (simp add: takeWhile_tail takeWhile_neq_all)
  then have "find_nat (drop ?b line) '')'' = Some (length arg)"
    unfolding d by (simp add: find_nat_char del: takeWhile_append2)
  moreover have "?b \<le> length line"
    by (simp add: line)
  ultimately have e: "py_find_from line '')'' ?b = int (?b + length arg)"
    by (simp add: py_find_from_def)
  have c1: "clip line (int ?b) = ?b"
    unfolding clip_nat by (simp add: line)
  have c2: "clip line (int (?b + length arg)) = ?b + length arg"
    unfolding clip_nat by (simp add: line)
  have s1: "slice (int ?b) (int (?b + length arg)) line = arg"
    unfolding slice_def c1 c2 by (simp add: line)
  have s2: "slice_to (int ?b) line = pre @ ''url(''"
    unfolding slice_to_def c1 by (simp add: line)
  have s3: "slice_from (int (?b + length arg)) line = '')'' @ post"
    unfolding slice_from_def c2 by (simp add: line numeral_eq_Suc)
  have n: "py_find line ''url('' \<noteq> - 1"
    using first by simp
  show ?thesis
    unfolding update_css_line_def Let_def b
    using n by (simp only: nat_int e s1 s2 s3 append_assoc) simp
qed

lemma update_css_line_plain:
  assumes "py_find line ''url('' = - 1"
  shows "update_css_line domain cssUrl urlretrieve run line
           = Inr (run\<lparr>written := written run @ [line]\<rparr>)"
  using assms by (simp add: update_css_line_def)

lemma update_css_line_grows:
  assumes "update_css_line domain cssUrl urlretrieve run line = Inr run'"
  shows "\<exists>w ps rs. written run' = written run @ [w] \<and> printed run' = printed run @ ps
           \<and> retrieved run' = retrieved run @ rs"
  using assms
  by (auto simp: update_css_line_def Let_def split: if_splits sum.splits option.splits)

lemma css_lines_grows:
  assumes "css_lines domain cssUrl urlretrieve run temp = Inr run'"
  shows "\<exists>ws ps rs. written run' = written run @ ws \<and> length ws = length temp
           \<and> printed run' = printed run @ ps \<and> retrieved run' = retrieved run @ rs"
  using assms
proof (induction temp arbitrary: run)
  case Nil
  then show ?case by simp
next
  case (Cons line temp)
  from Cons.prems obtain r where
    r: "update_css_line domain cssUrl urlretrieve run line = Inr r"
      "css_lines domain cssUrl urlretrieve r temp = Inr run'"
    by (auto split: sum.splits)
  from update_css_line_grows [OF r(1)] obtain w ps rs where
    w: "written r = written run @ [w]" "printed r = printed run @ ps"
      "retrieved r = retrieved run @ rs"
    by blast
  from Cons.IH [OF r(2)] obtain ws ps' rs' where
    ws: "written run' = written r @ ws" "length ws = length temp"
      "printed run' = printed r @ ps'" "retrieved run' = retrieved r @ rs'"
    by blast
  show ?case
    using w ws
    by (intro exI [of _ "w # ws"] exI [of _ "ps @ ps'"] exI [of _ "rs @ rs'"]) simp
qed

lemma css_lines_append:
  "css_lines domain cssUrl urlretrieve run (xs @ ys) =
     (case css_lines domain cssUrl urlretrieve run xs of
        Inl e \<Rightarrow> Inl e
      | Inr r \<Rightarrow> css_lines domain cssUrl urlretrieve r ys)"
  by (induction xs arbitrary: run) (auto split: sum.splits)

text \<open>
  The run of the whole file, seen from its line \<open>i\<close>: the line is handled in a run that has
  written \<open>i\<close> lines, and what that step writes, fetches and prints is in the final run.
\<close>

lemma update_css_file_line:
  assumes run: "update_css_file domain cssUrl urlretrieve temp = Inr run"
    and i: "i < length temp"
  shows "\<exists>r1 r2. update_css_line domain cssUrl urlretrieve r1 (temp ! i) = Inr r2
           \<and> length (written r1) = i
           \<and> (\<exists>ws. written run = written r2 @ ws)
           \<and> set (printed r2) \<subseteq> set (printed run)
           \<and> set (retrieved r2) \<subseteq> set (retrieved run)"
proof -
  let ?init = "\<lparr>written = [], retrieved = [], printed = []\<rparr>"
  have t: "temp = take i temp @ temp ! i # drop (Suc i) temp"
    using i by (simp add: id_take_nth_drop)
  from run obtain r1 r2 where
    r1: "css_lines domain cssUrl urlretrieve ?init (take i temp) = Inr r1" and
    r2: "update_css_line domain cssUrl urlretrieve r1 (temp ! i) = Inr r2" and
    r3: "css_lines domain cssUrl urlretrieve r2 (drop (Suc i) temp) = Inr run"
    unfolding update_css_file_def
    by (subst (asm) t) (auto simp: css_lines_append split: sum.splits)
  from css_lines_grows [OF r1] i have "length (written r1) = i"
    by auto
  moreover from css_lines_grows [OF r3] have "\<exists>ws. written run = written r2 @ ws"
    "set (printed r2) \<subseteq> set (printed run)" "set (retrieved r2) \<subseteq> set (retrieved run)"
    by auto
  ultimately show ?thesis
    using r2 by blast
qed

lemma update_css_file_plain:
  assumes run: "update_css_file domain cssUrl urlretrieve temp = Inr run"
    and i: "i < length temp"
    and plain: "py_find (temp ! i) ''url('' = - 1"
  shows "written run ! i = temp ! i"
proof -
  from update_css_file_line [OF run i] obtain r1 r2 ws where
    r: "update_css_line domain cssUrl urlretrieve r1 (temp ! i) = Inr r2"
      "length (written r1) = i" "written run = written r2 @ ws"
    by blast
  from r(1) have "written r2 = written r1 @ [temp ! i]"
    by (auto simp: update_css_line_plain [OF plain])
  then show ?thesis
    using r(2,3) by (simp add: nth_append)
qed

lemma update_css_file_reference:
  assumes run: "update_css_file domain cssUrl urlretrieve temp = Inr run"
    and i: "i < length temp"
    and line: "temp ! i = pre @ ''url('' @ arg @ '')'' @ post"
    and first: "py_find (temp ! i) ''url('' = int (length pre)"
    and close: "CHR '')'' \<notin> set arg"
  shows "\<exists>address. css_address domain cssUrl arg = Inr address
           \<and> written run ! i = pre @ ''url('' @ local_name address @ '')'' @ post
           \<and> (urlretrieve address (local_name address) = Some HTTPError
                \<longrightarrow> ''<class 'urllib.error.HTTPError'>'' \<in> set (printed run))
           \<and> (urlretrieve address (local_name address) = None
                \<longrightarrow> (address, local_name address) \<in> set (retrieved run))"
proof -
  from update_css_file_line [OF run i] obtain r1 r2 ws where
    r2: "update_css_line domain cssUrl urlretrieve r1 (temp ! i) = Inr r2" and
    l1: "length (written r1) = i" and
    g3: "written run = written r2 @ ws" "set (printed r2) \<subseteq> set (printed run)"
      "set (retrieved r2) \<subseteq> set (retrieved run)"
    by blast
  note ref = update_css_line_reference [OF line first close, of domain cssUrl urlretrieve r1]
  from r2 ref obtain address where
    a: "css_address domain cssUrl arg = Inr address"
    by (cases "css_address domain cssUrl arg") auto
  let ?new = "pre @ ''url('' @ local_name address @ '')'' @ post"
  have w2: "written r2 = written r1 @ [?new]"
    using r2 ref a by (auto split: option.splits if_splits)
  have p2: "urlretrieve address (local_name address) = Some HTTPError
      \<Longrightarrow> ''<class 'urllib.error.HTTPError'>'' \<in> set (printed r2)"
    using r2 ref a by auto
  have q2: "urlretrieve address (local_name address) = None
      \<Longrightarrow> (address, local_name address) \<in> set (retrieved r2)"
    using r2 ref a by auto
  have "written run ! i = ?new"
    using g3(1) w2 l1 by (simp add: nth_append)
  then show ?thesis
    using a p2 q2 g3(2,3) by auto
qed

text \<open>
  Claim C3, as stated: when the fetch of one asset fails, the failure is logged, the
  \<open>url(...)\<close> argument of that reference is left as it was, and the rest of the file is
  processed. It fails twice. The substitution stands after the \<open>try\<close> statement, so the
  argument is replaced although the fetch raised \<open>HTTPError\<close>; and only \<open>HTTPError\<close> is
  caught, so any other failure of the fetch ends the run.
\<close>

theorem css_failed_fetch_counterexample:
  "update_css_file ''https://example.org'' ''https://example.org/css/theme.css''
     (\<lambda>_ _. Some HTTPError) [''a { background: url(/images/bg.png); }'', ''b { color: red; }'']
   = Inr \<lparr>written = [''a { background: url(bg.png); }'', ''b { color: red; }''],
          retrieved = [],
          printed = [''<class 'urllib.error.HTTPError'>'']\<rparr>
   \<and> update_css_file ''https://example.org'' ''https://example.org/css/theme.css''
     (\<lambda>_ _. Some OtherError) [''a { background: url(/images/bg.png); }'', ''b { color: red; }'']
   = Inl OtherError"
  by (simp only: css_example_http_error css_example_other_error)

text \<open>
  Claim C3, amended: when fetches fail with \<open>HTTPError\<close> only, \<open>update_css_file\<close> goes on
  with the rest of the file: it raises exactly when the run with every fetch succeeding
  raises, and otherwise writes every line of the file, with the same text as that run. A
  line without \<open>url(\<close> is written as it is. In a line whose first \<open>url(\<close> is closed by a
  \<open>)\<close>, the argument between them is replaced by the local file name of the address it
  resolves to, whether or not the fetch of that address failed; when the fetch raised
  \<open>HTTPError\<close> the failure is printed, and when it returned the download is recorded.
\<close>

theorem css_http_error_still_substitutes:
  assumes "\<forall>address name. urlretrieve address name = None \<or> urlretrieve address name = Some HTTPError"
  shows "map_sum id written (update_css_file domain cssUrl urlretrieve temp)
           = map_sum id written (update_css_file domain cssUrl (\<lambda>_ _. None) temp)
         \<and> (\<forall>run. update_css_file domain cssUrl urlretrieve temp = Inr run
               \<longrightarrow> length (written run) = length temp
                 \<and> (\<forall>i. i < length temp \<and> py_find (temp ! i) ''url('' = - 1
                        \<longrightarrow> written run ! i = temp ! i)
                 \<and> (\<forall>i pre arg post.
                        i < length temp
                        \<and> temp ! i = pre @ ''url('' @ arg @ '')'' @ post
                        \<and> py_find (temp ! i) ''url('' = int (length pre)
                        \<and> CHR '')'' \<notin> set arg
                        \<longrightarrow> (\<exists>address.
                               css_address domain cssUrl arg = Inr address
                               \<and> written run ! i
                                   = pre @ ''url('' @ local_name address @ '')'' @ post
                               \<and> (urlretrieve address (local_name address) = Some HTTPError
                                    \<longrightarrow> ''<class 'urllib.error.HTTPError'>''
                                          \<in> set (printed run))
                               \<and> (urlretrieve address (local_name address) = None
                                    \<longrightarrow> (address, local_name address)
                                          \<in> set (retrieved run)))))"
proof (intro conjI allI impI)
  show "map_sum id written (update_css_file domain cssUrl urlretrieve temp)
      = map_sum id written (update_css_file domain cssUrl (\<lambda>_ _. None) temp)"
    using update_css_file_http [OF assms, of domain cssUrl temp]
    by (auto split: sum.splits)
next
  fix run
  assume "update_css_file domain cssUrl urlretrieve temp = Inr run"
  then show "length (written run) = length temp"
    using update_css_file_http [OF assms, of domain cssUrl temp] by auto
next
  fix run i
  assume "update_css_file domain cssUrl urlretrieve temp = Inr run"
    and "i < length temp \<and> py_find (temp ! i) ''url('' = - 1"
  then show "written run ! i = temp ! i"
    using update_css_file_plain by blast
next
  fix run i pre arg post
  assume run: "update_css_file domain cssUrl urlretrieve temp = Inr run"
    and h: "i < length temp
      \<and> temp ! i = pre @ ''url('' @ arg @ '')'' @ post
      \<and> py_find (temp ! i) ''url('' = int (length pre)
      \<and> CHR '')'' \<notin> set arg"
  from h have i: "i < length temp"
    and line: "temp ! i = pre @ ''url('' @ arg @ '')'' @ post"
    and first: "py_find (temp ! i) ''url('' = int (length pre)"
    and close: "CHR '')'' \<notin> set arg"
    by blast+
  show "\<exists>address.
      css_address domain cssUrl arg = Inr address
      \<and> written run ! i = pre @ ''url('' @ local_name address @ '')'' @ post
      \<and> (urlretrieve address (local_name address) = Some HTTPError
           \<longrightarrow> ''<class 'urllib.error.HTTPError'>'' \<in> set (printed run))
      \<and> (urlretrieve address (local_name address) = None
           \<longrightarrow> (address, local_name address) \<in> set (retrieved run))"
    by (rule update_css_file_reference [OF run i line first close])
qed

theorem css_http_error_still_substitutes_witness:
  "(\<forall>address name. (\<lambda>_ _. Some HTTPError) address name = (None :: py_error option)
        \<or> (\<lambda>_ _. Some HTTPError) (address :: string) (name :: string) = Some HTTPError)
   \<and> update_css_file ''https://example.org'' ''https://example.org/css/theme.css''
        (\<lambda>_ _. Some HTTPError) [''a { background: url(/images/bg.png); }'', ''b { color: red; }'']
      = Inr \<lparr>written = [''a { background: url(bg.png); }'', ''b { color: red; }''],
             retrieved = [],
             printed = [''<class 'urllib.error.HTTPError'>'']\<rparr>
   \<and> py_find ''a { background: url(/images/bg.png); }'' ''url('' = 16
   \<and> py_find ''b { color: red; }'' ''url('' = - 1
   \<and> map_sum id written
        (update_css_file ''https://example.org'' ''https://example.org/css/theme.css''
          (\<lambda>_ _. None) [''a { background: url(/images/bg.png); }'', ''b { color: red; }''])
      = Inr [''a { background: url(bg.png); }'', ''b { color: red; }'']
   \<and> (\<exists>address.
         css_address ''https://example.org'' ''https://example.org/css/theme.css''
           ''/images/bg.png'' = Inr address
         \<and> ''a { background: url(bg.png); }''
             = ''a { background: '' @ ''url('' @ local_name address @ '')'' @ ''; }'')"
proof -
  let ?temp = "[''a { background: url(/images/bg.png); }'', ''b { color: red; }'']"
  let ?f = "\<lambda>(_ :: string) (_ :: string). Some HTTPError"
  have h: "\<forall>address name. ?f address name = None \<or> ?f address name = Some HTTPError"
    by simp
  have f1: "py_find ''a { background: url(/images/bg.png); }'' ''url('' = 16"
    by (simp add: py_find_def)
  have f2: "py_find ''b { color: red; }'' ''url('' = - 1"
    by (simp add: py_find_def)
  have g: "0 < length ?temp
      \<and> ?temp ! 0 = ''a { background: '' @ ''url('' @ ''/images/bg.png'' @ '')'' @ ''; }''
      \<and> py_find (?temp ! 0) ''url('' = int (length ''a { background: '')
      \<and> CHR '')'' \<notin> set ''/images/bg.png''"
    using f1 by simp
  note t = css_http_error_still_substitutes [OF h, of "''https://example.org''"
        "''https://example.org/css/theme.css''" ?temp]
  from t have "map_sum id written
        (update_css_file ''https://example.org'' ''https://example.org/css/theme.css''
          (\<lambda>_ _. None) ?temp)
      = Inr [''a { background: url(bg.png); }'', ''b { color: red; }'']"
    by (simp add: css_example_http_error)
  moreover
  from t [THEN conjunct2, rule_format, OF css_example_http_error,
      THEN conjunct2, THEN conjunct2, rule_format, OF g]
  have "\<exists>address.
         css_address ''https://example.org'' ''https://example.org/css/theme.css''
           ''/images/bg.png'' = Inr address
         \<and> ''a { background: url(bg.png); }''
             = ''a { background: '' @ ''url('' @ local_name address @ '')'' @ ''; }''"
    by auto
  ultimately show ?thesis
    using h f1 f2 css_example_http_error by simp
qed

section \<open>Parsed documents and the index\<close>

text \<open>
  A parsed document is the tree BeautifulSoup builds: text nodes, and tags with a name, a
  dictionary of attributes (an association list, in the order the keys were set) and
  contents. The \<open>soup\<close> is the list of the top-level nodes.
\<close>

datatype node =
    Text string
  | Tag string "(string \<times> string) list" "node list"

type_synonym attrs = "(string \<times> string) list"
type_synonym soup = "node list"

text \<open>The tags of a document in document order, the order in which \<open>find_all\<close> lists them.\<close>

fun tags_of :: "node \<Rightarrow> (string \<times> attrs) list"
  and tags :: "node list \<Rightarrow> (string \<times> attrs) list" where
  "tags_of (Text s) = []"
| "tags_of (Tag name as contents) = (name, as) # tags contents"
| "tags [] = []"
| "tags (n # ns) = tags_of n @ tags ns"

text \<open>
  An attribute filter of \<open>find_all\<close>. The value of \<open>class\<close> is a list of the class names,
  and the filter accepts the tag when one of them, or the whole value, is the text asked
  for; any other attribute has to equal the text.
\<close>

definition isspace :: "char \<Rightarrow> bool" where
  "isspace c = (c \<in> set [CHR '' '', CHR 0x09, CHR 0x0A, CHR 0x0B, CHR 0x0C, CHR 0x0D])"

fun split_ws :: "string \<Rightarrow> string \<Rightarrow> string list" where
  "split_ws cur [] = (if cur = [] then [] else [rev cur])"
| "split_ws cur (c # cs) =
     (if isspace c then (if cur = [] then [] else [rev cur]) @ split_ws [] cs
      else split_ws (c # cur) cs)"

definition attr_matches :: "attrs \<Rightarrow> string \<times> string \<Rightarrow> bool" where
  "attr_matches as kv =
     (case map_of as (fst kv) of
        None \<Rightarrow> False
      | Some x \<Rightarrow>
          if fst kv = ''class'' then snd kv \<in> set (split_ws [] x) \<or> x = snd kv
          else x = snd kv)"

definition selects :: "string list \<Rightarrow> (string \<times> string) list \<Rightarrow> string \<times> attrs \<Rightarrow> bool" where
  "selects names flt t = (fst t \<in> set names \<and> list_all (attr_matches (snd t)) flt)"

definition find_all :: "string list \<Rightarrow> (string \<times> string) list \<Rightarrow> soup \<Rightarrow> attrs list" where
  "find_all names flt soup = map snd (filter (selects names flt) (tags soup))"

text \<open>\<open>tag[key]\<close> raises \<open>KeyError\<close> when the tag has no such attribute.\<close>

definition get_attr :: "attrs \<Rightarrow> string \<Rightarrow> py_error + string" where
  "get_attr as key = (case map_of as key of None \<Rightarrow> Inl KeyError | Some v \<Rightarrow> Inr v)"

text \<open>A \<open>for\<close> loop whose body can raise: the first raise ends the loop.\<close>

fun for_each :: "('a \<Rightarrow> 's \<Rightarrow> 'e + 's) \<Rightarrow> 'a list \<Rightarrow> 's \<Rightarrow> 'e + 's" where
  "for_each body [] s = Inr s"
| "for_each body (x # xs) s =
     (case body x s of Inl e \<Rightarrow> Inl e | Inr s' \<Rightarrow> for_each body xs s')"

text \<open>The \<open>fileDict\<close>: ten lists, filled by appending.\<close>

record file_dict =
  pageUrls :: "string list"
  pageFileNames :: "string list"
  pageIds :: "string list"
  fileUrls :: "string list"
  fileIds :: "string list"
  fileNames :: "string list"
  cssUrls :: "string list"
  cssFileNames :: "string list"
  imgUrls :: "string list"
  imgFileNames :: "string list"

definition make_file_dict :: file_dict where
  "make_file_dict =
     \<lparr>pageUrls = [], pageFileNames = [], pageIds = [], fileUrls = [], fileIds = [],
      fileNames = [], cssUrls = [], cssFileNames = [], imgUrls = [], imgFileNames = []\<rparr>"

section \<open>Collecting the resources of a page\<close>

text \<open>
  The collection functions append to the lists of the \<open>fileDict\<close> they are given, in
  place, so what they appended before a raise stays in the dictionary. A collection
  function therefore returns \<open>Inr\<close> with the dictionary when it returns, and \<open>Inl\<close> with
  the exception and the dictionary as it is at the raise.
\<close>

type_synonym collected = "(py_error \<times> file_dict) + file_dict"

text \<open>
  \<open>file_name_of epoId\<close> stands for the expression
  \<open>d2lepoexport.get_ep_object_properties(uc, epoId).FileName.strip()\<close>. The module imports
  \<open>eportfolio\<close> and binds the name \<open>d2lepoexport\<close> nowhere, neither by an import nor by
  an assignment, so evaluating the expression raises \<open>NameError\<close> at the name, before
  any service is called: that is \<open>d2lepoexport_lookup\<close>. The collection functions take
  the expression as an argument, so that what is proved of them for every lookup holds
  for the module as it stands and for a module that binds the name.
\<close>

definition d2lepoexport_lookup :: "string \<Rightarrow> py_error + string" where
  "d2lepoexport_lookup epoId = Inl NameError"

text \<open>
  The block that \<open>get_embedded_object\<close> and \<open>get_img\<close> both run for an object id: an
  id not yet in \<open>fileIds\<close> is appended, then its address is appended to \<open>fileUrls\<close>,
  then the file name is looked up and appended to \<open>fileNames\<close>. A raise of the lookup
  leaves the function with the first two lists already longer, and no caller catches it.
\<close>

definition register_file ::
  "(string \<Rightarrow> py_error + string) \<Rightarrow> string \<Rightarrow> string \<Rightarrow> file_dict \<Rightarrow> collected" where
  "register_file file_name_of epoId address fileDict =
     (if epoId \<notin> set (fileIds fileDict) then
        (let fileDict1 = fileDict\<lparr>fileIds := fileIds fileDict @ [epoId]\<rparr>;
             fileDict2 = fileDict1\<lparr>fileUrls := fileUrls fileDict1 @ [address]\<rparr>
         in case file_name_of epoId of
              Inl e \<Rightarrow> Inl (e, fileDict2)
            | Inr fileName \<Rightarrow>
                Inr (fileDict2\<lparr>fileNames := fileNames fileDict2 @ [fileName]\<rparr>))
      else Inr fileDict)"

definition embedded_object_body ::
  "string \<Rightarrow> (string \<Rightarrow> py_error + string) \<Rightarrow> attrs \<Rightarrow> file_dict \<Rightarrow> collected" where
  "embedded_object_body domain file_name_of a fileDict =
     (case get_attr a ''href'' of
        Inl e \<Rightarrow> Inl (e, fileDict)
      | Inr href \<Rightarrow>
          if py_find href ''d2lfile'' > 0 then
            (case get_epo_id href of
               Inl e \<Rightarrow> Inl (e, fileDict)
             | Inr epoId \<Rightarrow> register_file file_name_of epoId (domain @ href) fileDict)
          else Inr fileDict)"

definition get_embedded_object ::
  "string \<Rightarrow> (string \<Rightarrow> py_error + string) \<Rightarrow> soup \<Rightarrow> file_dict \<Rightarrow> collected" where
  "get_embedded_object domain file_name_of soup fileDict =
     for_each (embedded_object_body domain file_name_of) (find_all [''a''] [] soup) fileDict"

definition css_file_name :: "string \<Rightarrow> string" where
  "css_file_name css =
     (let fileName = slice_from (py_rfind css ''/'' + 1) css
      in if py_find fileName ''?'' > 0 then slice_to (py_find fileName ''?'') fileName
         else fileName)"

definition css_body :: "string \<Rightarrow> attrs \<Rightarrow> file_dict \<Rightarrow> collected" where
  "css_body domain link fileDict =
     (case get_attr link ''type'' of
        Inl e \<Rightarrow> Inl (e, fileDict)
      | Inr ty \<Rightarrow>
          if ty = ''text/css'' then
            (case get_attr link ''href'' of
               Inl e \<Rightarrow> Inl (e, fileDict)
             | Inr href \<Rightarrow>
                 (let css = domain @ href
                  in if css \<notin> set (cssUrls fileDict) then
                       Inr (fileDict\<lparr>cssUrls := cssUrls fileDict @ [css],
                                     cssFileNames := cssFileNames fileDict @ [css_file_name css]\<rparr>)
                     else Inr fileDict))
          else Inr fileDict)"

definition get_css :: "string \<Rightarrow> soup \<Rightarrow> file_dict \<Rightarrow> collected" where
  "get_css domain soup fileDict =
     for_each (css_body domain) (find_all [''link''] [] soup) fileDict"

definition img_body ::
  "string \<Rightarrow> (string \<Rightarrow> py_error + string) \<Rightarrow> attrs \<Rightarrow> file_dict \<Rightarrow> collected" where
  "img_body domain file_name_of img fileDict =
     (case get_attr img ''src'' of
        Inl e \<Rightarrow> Inl (e, fileDict)
      | Inr src \<Rightarrow>
          if py_find src ''d2lFile'' < 0 then
            (let url = domain @ src
             in if url \<notin> set (imgUrls fileDict)
                then Inr (fileDict\<lparr>imgUrls := imgUrls fileDict @ [url]\<rparr>)
                else Inr fileDict)
          else
            (case get_epo_id src of
               Inl e \<Rightarrow> Inl (e, fileDict)
             | Inr epoId \<Rightarrow> register_file file_name_of epoId (domain @ src) fileDict))"

definition get_img ::
  "string \<Rightarrow> (string \<Rightarrow> py_error + string) \<Rightarrow> soup \<Rightarrow> file_dict \<Rightarrow> collected" where
  "get_img domain file_name_of soup fileDict =
     for_each (img_body domain file_name_of) (find_all [''img''] [] soup) fileDict"

subsection \<open>Loops that can raise\<close>


lemma for_each_invariant:
  assumes "\<And>x s s'. P s \<Longrightarrow> body x s = Inr s' \<Longrightarrow> P s'"
    and "P s" and "for_each body xs s = Inr s'"
  shows "P s'"
  using assms(2,3)
proof (induction xs arbitrary: s)
  case Nil
  then show ?case by simp
next
  case (Cons x xs)
  then obtain s1 where s1: "body x s = Inr s1" "for_each body xs s1 = Inr s'"
    by (auto split: sum.splits)
  from assms(1) [OF Cons.prems(1) s1(1)] have "P s1" .
  then show ?case using Cons.IH s1(2) by blast
qed

lemma for_each_noop:
  "(\<And>x. x \<in> set xs \<Longrightarrow> body x s = Inr s) \<Longrightarrow> for_each body xs s = Inr s"
  by (induction xs) auto

lemma for_each_settles:
  assumes step: "\<And>x s s'. body x s = Inr s' \<Longrightarrow> body x s' = Inr s'"
    and mono: "\<And>x y s s'. body x s = Inr s \<Longrightarrow> body y s = Inr s' \<Longrightarrow> body x s' = Inr s'"
    and run: "for_each body xs s = Inr s'"
  shows "x \<in> set xs \<Longrightarrow> body x s' = Inr s'"
  using run
proof (induction xs arbitrary: s)
  case Nil
  then show ?case by simp
next
  case (Cons y ys)
  then obtain s1 where s1: "body y s = Inr s1" "for_each body ys s1 = Inr s'"
    by (auto split: sum.splits)
  have keep: "body x s1 = Inr s1 \<Longrightarrow> body x s' = Inr s'"
    by (rule for_each_invariant [where P = "\<lambda>s. body x s = Inr s", OF _ _ s1(2)])
      (use mono in blast)
  show ?case
  proof (cases "x = y")
    case True
    then show ?thesis using step [OF s1(1)] keep by simp
  next
    case False
    then show ?thesis using Cons.IH [OF _ s1(2)] Cons.prems(1) by simp
  qed
qed

lemma for_each_idempotent:
  assumes step: "\<And>x s s'. body x s = Inr s' \<Longrightarrow> body x s' = Inr s'"
    and mono: "\<And>x y s s'. body x s = Inr s \<Longrightarrow> body y s = Inr s' \<Longrightarrow> body x s' = Inr s'"
    and run: "for_each body xs s = Inr s'"
  shows "for_each body xs s' = Inr s'"
  by (rule for_each_noop) (rule for_each_settles [OF step mono run])



text \<open>
  The body of the loop of \<open>populate_file_dict\<close>, for the parsed document of one page.
\<close>

definition populate_page ::
  "string \<Rightarrow> (string \<Rightarrow> py_error + string) \<Rightarrow> soup \<Rightarrow> file_dict \<Rightarrow> collected" where
  "populate_page domain file_name_of soup fileDict =
     (case get_embedded_object domain file_name_of soup fileDict of
        Inl e \<Rightarrow> Inl e
      | Inr fileDict1 \<Rightarrow>
          (case get_css domain soup fileDict1 of
             Inl e \<Rightarrow> Inl e
           | Inr fileDict2 \<Rightarrow> get_img domain file_name_of soup fileDict2))"

subsection \<open>Embedded assets are keyed by the object id\<close>

text \<open>The three tables of embedded assets stay aligned, with no id listed twice.\<close>

definition file_tables_ok :: "file_dict \<Rightarrow> bool" where
  "file_tables_ok fd =
     (distinct (fileIds fd) \<and> length (fileUrls fd) = length (fileIds fd)
      \<and> length (fileNames fd) = length (fileIds fd))"

lemma register_file_ok:
  "file_tables_ok fd \<Longrightarrow> register_file lk i u fd = Inr fd' \<Longrightarrow> file_tables_ok fd'"
  by (auto simp: register_file_def Let_def file_tables_ok_def split: if_splits sum.splits)

lemma register_file_mem:
  "register_file lk i u fd = Inr fd' \<Longrightarrow> i \<in> set (fileIds fd') \<and> set (fileIds fd) \<subseteq> set (fileIds fd')"
  by (auto simp: register_file_def Let_def split: if_splits sum.splits)

lemma register_file_noop:
  "i \<in> set (fileIds fd) \<Longrightarrow> register_file lk i u fd = Inr fd"
  by (simp add: register_file_def Let_def)

lemma register_file_noop_iff:
  "register_file lk i u fd = Inr fd \<longleftrightarrow> i \<in> set (fileIds fd)"
  by (auto simp: register_file_def Let_def split: sum.splits dest: arg_cong [where f = fileIds])

lemma embedded_object_body_ok:
  "file_tables_ok fd \<Longrightarrow> embedded_object_body d lk a fd = Inr fd' \<Longrightarrow> file_tables_ok fd'"
  by (auto simp: embedded_object_body_def split: if_splits sum.splits dest: register_file_ok)

lemma embedded_object_body_mono:
  "embedded_object_body d lk a fd = Inr fd' \<Longrightarrow> set (fileIds fd) \<subseteq> set (fileIds fd')"
  by (auto simp: embedded_object_body_def split: if_splits sum.splits dest: register_file_mem)

lemma embedded_object_body_noop_iff:
  "embedded_object_body d lk a fd = Inr fd \<longleftrightarrow>
     (\<exists>href. get_attr a ''href'' = Inr href
        \<and> (0 < py_find href ''d2lfile'' \<longrightarrow>
             (\<exists>i. get_epo_id href = Inr i \<and> i \<in> set (fileIds fd))))"
  by (auto simp: embedded_object_body_def register_file_noop_iff split: sum.splits)

lemma embedded_object_body_step:
  "embedded_object_body d lk a fd = Inr fd' \<Longrightarrow> embedded_object_body d lk a fd' = Inr fd'"
  unfolding embedded_object_body_noop_iff
  by (auto simp: embedded_object_body_def split: sum.splits if_splits dest: register_file_mem)

lemma embedded_object_body_keep:
  "embedded_object_body d lk a fd = Inr fd \<Longrightarrow> embedded_object_body d lk b fd = Inr fd'
     \<Longrightarrow> embedded_object_body d lk a fd' = Inr fd'"
  unfolding embedded_object_body_noop_iff
  using embedded_object_body_mono [of d lk b fd fd'] by (auto simp: embedded_object_body_noop_iff)


lemma css_body_files: "css_body d a fd = Inr fd' \<Longrightarrow>
    fileIds fd' = fileIds fd \<and> fileUrls fd' = fileUrls fd \<and> fileNames fd' = fileNames fd
    \<and> imgUrls fd' = imgUrls fd \<and> imgFileNames fd' = imgFileNames fd"
  by (auto simp: css_body_def Let_def split: sum.splits if_splits)


lemma css_body_mono: "css_body d a fd = Inr fd' \<Longrightarrow> set (cssUrls fd) \<subseteq> set (cssUrls fd')"
  by (auto simp: css_body_def Let_def split: sum.splits if_splits)

lemma css_body_noop_iff:
  "css_body d a fd = Inr fd \<longleftrightarrow>
     (\<exists>ty. get_attr a ''type'' = Inr ty
        \<and> (ty = ''text/css'' \<longrightarrow>
             (\<exists>href. get_attr a ''href'' = Inr href \<and> d @ href \<in> set (cssUrls fd))))"
  by (auto simp: css_body_def Let_def split: sum.splits dest: arg_cong [where f = cssUrls])

lemma css_body_step: "css_body d a fd = Inr fd' \<Longrightarrow> css_body d a fd' = Inr fd'"
  unfolding css_body_noop_iff
  by (auto simp: css_body_def Let_def split: sum.splits if_splits)

lemma css_body_keep:
  "css_body d a fd = Inr fd \<Longrightarrow> css_body d b fd = Inr fd' \<Longrightarrow> css_body d a fd' = Inr fd'"
  unfolding css_body_noop_iff
  using css_body_mono [of d b fd fd'] by (auto simp: css_body_noop_iff)


lemma img_body_ok:
  "file_tables_ok fd \<Longrightarrow> img_body d lk a fd = Inr fd' \<Longrightarrow> file_tables_ok fd'"
  by (auto simp: img_body_def Let_def split: if_splits sum.splits dest: register_file_ok)
    (auto simp: file_tables_ok_def)

lemma img_body_mono:
  "img_body d lk a fd = Inr fd' \<Longrightarrow>
     set (fileIds fd) \<subseteq> set (fileIds fd') \<and> set (imgUrls fd) \<subseteq> set (imgUrls fd')"
  by (auto simp: img_body_def Let_def register_file_def split: if_splits sum.splits)



lemma img_body_noop_iff:
  "img_body d lk a fd = Inr fd \<longleftrightarrow>
     (\<exists>src. get_attr a ''src'' = Inr src
        \<and> (if py_find src ''d2lFile'' < 0 then d @ src \<in> set (imgUrls fd)
           else (\<exists>i. get_epo_id src = Inr i \<and> i \<in> set (fileIds fd))))"
  by (auto simp: img_body_def Let_def register_file_noop_iff split: sum.splits
      dest: arg_cong [where f = imgUrls])

lemma img_body_step: "img_body d lk a fd = Inr fd' \<Longrightarrow> img_body d lk a fd' = Inr fd'"
  unfolding img_body_noop_iff
  by (auto simp: img_body_def Let_def split: sum.splits if_splits dest: register_file_mem)

lemma img_body_keep:
  "img_body d lk a fd = Inr fd \<Longrightarrow> img_body d lk b fd = Inr fd' \<Longrightarrow> img_body d lk a fd' = Inr fd'"
  unfolding img_body_noop_iff
  using img_body_mono [of d lk b fd fd'] by (auto simp: img_body_noop_iff split: if_splits)


lemma img_body_css: "img_body d lk a fd = Inr fd' \<Longrightarrow>
    cssUrls fd' = cssUrls fd \<and> cssFileNames fd' = cssFileNames fd"
  by (auto simp: img_body_def Let_def register_file_def split: sum.splits if_splits)




lemma get_embedded_object_idempotent:
  "get_embedded_object d lk soup fd = Inr fd' \<Longrightarrow> get_embedded_object d lk soup fd' = Inr fd'"
  unfolding get_embedded_object_def
  by (rule for_each_idempotent [OF embedded_object_body_step embedded_object_body_keep])

lemma populate_page_single_entry:
  assumes ok: "file_tables_ok fd"
    and run: "populate_page domain file_name_of soup fd = Inr fd'"
  shows "file_tables_ok fd'"
    and "populate_page domain file_name_of soup fd' = Inr fd'"
    and "a \<in> set (find_all [''a''] [] soup) \<Longrightarrow> get_attr a ''href'' = Inr href
         \<Longrightarrow> 0 < py_find href ''d2lfile'' \<Longrightarrow> get_epo_id href = Inr epoId
         \<Longrightarrow> epoId \<in> set (fileIds fd')"
    and "img \<in> set (find_all [''img''] [] soup) \<Longrightarrow> get_attr img ''src'' = Inr src
         \<Longrightarrow> \<not> py_find src ''d2lFile'' < 0 \<Longrightarrow> get_epo_id src = Inr epoId
         \<Longrightarrow> epoId \<in> set (fileIds fd')"
proof -
  from run obtain fd1 fd2 where
    r1: "get_embedded_object domain file_name_of soup fd = Inr fd1" and
    r2: "get_css domain soup fd1 = Inr fd2" and
    r3: "get_img domain file_name_of soup fd2 = Inr fd'"
    by (auto simp: populate_page_def split: sum.splits)
  let ?A = "find_all [''a''] [] soup" and ?L = "find_all [''link''] [] soup"
  let ?I = "find_all [''img''] [] soup"
  let ?ea = "embedded_object_body domain file_name_of"
  let ?ei = "img_body domain file_name_of"
  have ok1: "file_tables_ok fd1"
    using r1 unfolding get_embedded_object_def
    by (rule for_each_invariant [rotated 2]) (auto intro: embedded_object_body_ok ok)
  have f2: "fileIds fd2 = fileIds fd1 \<and> fileUrls fd2 = fileUrls fd1 \<and> fileNames fd2 = fileNames fd1"
    using r2 unfolding get_css_def
    by (rule for_each_invariant [rotated 2]) (auto dest: css_body_files)
  then have ok2: "file_tables_ok fd2"
    using ok1 by (simp add: file_tables_ok_def)
  show ok': "file_tables_ok fd'"
    using r3 unfolding get_img_def
    by (rule for_each_invariant [rotated 2]) (auto intro: img_body_ok ok2)
  have sub: "set (fileIds fd2) \<subseteq> set (fileIds fd')"
    using r3 unfolding get_img_def
    by (rule for_each_invariant [rotated 2]) (auto dest: img_body_mono)
  have c3: "cssUrls fd' = cssUrls fd2"
    using r3 unfolding get_img_def
    by (rule for_each_invariant [rotated 2]) (auto dest: img_body_css)
  have a1: "?ea x fd1 = Inr fd1" if "x \<in> set ?A" for x
    using for_each_settles [OF embedded_object_body_step embedded_object_body_keep
        r1 [unfolded get_embedded_object_def] that] .
  have a': "?ea x fd' = Inr fd'" if "x \<in> set ?A" for x
    using a1 [OF that] f2 sub unfolding embedded_object_body_noop_iff by auto
  have l2: "css_body domain x fd2 = Inr fd2" if "x \<in> set ?L" for x
    using for_each_settles [OF css_body_step css_body_keep r2 [unfolded get_css_def] that] .
  have l': "css_body domain x fd' = Inr fd'" if "x \<in> set ?L" for x
    using l2 [OF that] c3 unfolding css_body_noop_iff by auto
  have i': "?ei x fd' = Inr fd'" if "x \<in> set ?I" for x
    using for_each_settles [OF img_body_step img_body_keep r3 [unfolded get_img_def] that] .
  show "populate_page domain file_name_of soup fd' = Inr fd'"
    by (simp add: populate_page_def get_embedded_object_def get_css_def get_img_def
        for_each_noop a' l' i')
  show "epoId \<in> set (fileIds fd')"
    if "a \<in> set ?A" "get_attr a ''href'' = Inr href" "0 < py_find href ''d2lfile''"
      "get_epo_id href = Inr epoId"
    using a' [OF that(1)] that(2-4) unfolding embedded_object_body_noop_iff by auto
  show "epoId \<in> set (fileIds fd')"
    if "img \<in> set ?I" "get_attr img ''src'' = Inr src" "\<not> py_find src ''d2lFile'' < 0"
      "get_epo_id src = Inr epoId"
    using i' [OF that(1)] that(2-4) unfolding img_body_noop_iff by auto
qed


lemmas collect_eval =
  populate_page_def get_embedded_object_def get_css_def get_img_def find_all_def selects_def
  embedded_object_body_def css_body_def img_body_def register_file_def get_attr_def
  css_file_name_def py_find_def py_rfind_def rfind_nat_char get_epo_id_eq slice_from_def
  slice_to_def clip_def isdigit_def make_file_dict_def Let_def

text \<open>
  With a lookup that raises, the block ends between the appends: the id and the address
  are in their lists, the file name is not, and the collection of the page is over.
\<close>

lemma register_file_unbound:
  "epoId \<notin> set (fileIds fd) \<Longrightarrow>
     register_file d2lepoexport_lookup epoId address fd
       = Inl (NameError, fd\<lparr>fileIds := fileIds fd @ [epoId],
                              fileUrls := fileUrls fd @ [address]\<rparr>)"
  by (simp add: register_file_def d2lepoexport_lookup_def)

text \<open>
  Claim C8: an embedded asset is identified by its object id, not by its address, and an
  id referred to by an anchor and by an image of a page has one entry in \<open>fileIds\<close>,
  \<open>fileUrls\<close> and \<open>fileNames\<close>. Both functions do guard the block with
  \<open>epoId not in fileDict['fileIds']\<close>, and with a lookup that returns the guard gives what
  the claim says (\<open>populate_page_single_entry\<close>). But the module calls the lookup
  through the name \<open>d2lepoexport\<close>, which it never binds. On a page whose anchor and
  image refer to object \<open>9001\<close>, \<open>get_embedded_object\<close> appends the id and the address
  of the anchor and then raises \<open>NameError\<close>: the id has no entry in \<open>fileNames\<close>, the
  three tables are not aligned, and \<open>get_img\<close> is never called. Called on its own,
  \<open>get_img\<close> ends the same way at the image.
\<close>

theorem embedded_asset_lookup_unbound:
  "populate_page ''https://example.org'' d2lepoexport_lookup
     [Tag ''a'' [(''href'', ''/d2l/d2lfile?contextId=9001&view=1'')] [Text ''Report''],
      Tag ''img'' [(''src'', ''/d2l/img/d2lFile?contextId=9001&inline=1'')] []]
     make_file_dict
   = Inl (NameError,
          make_file_dict\<lparr>fileUrls := [''https://example.org/d2l/d2lfile?contextId=9001&view=1''],
                          fileIds := [''9001'']\<rparr>)
   \<and> get_img ''https://example.org'' d2lepoexport_lookup
     [Tag ''a'' [(''href'', ''/d2l/d2lfile?contextId=9001&view=1'')] [Text ''Report''],
      Tag ''img'' [(''src'', ''/d2l/img/d2lFile?contextId=9001&inline=1'')] []]
     make_file_dict
   = Inl (NameError,
          make_file_dict\<lparr>fileUrls := [''https://example.org/d2l/img/d2lFile?contextId=9001&inline=1''],
                          fileIds := [''9001'']\<rparr>)
   \<and> fileNames
       (make_file_dict\<lparr>fileUrls := [''https://example.org/d2l/d2lfile?contextId=9001&view=1''],
                        fileIds := [''9001'']\<rparr>) = []
   \<and> \<not> file_tables_ok
       (make_file_dict\<lparr>fileUrls := [''https://example.org/d2l/d2lfile?contextId=9001&view=1''],
                        fileIds := [''9001'']\<rparr>)"
  by (simp add: collect_eval d2lepoexport_lookup_def file_tables_ok_def)

subsection \<open>Stylesheets and formatting images are keyed by the whole address\<close>








section \<open>Rewriting the links of a page\<close>

text \<open>
  A pass of the form \<open>for item in soup.find_all(...): ...\<close> changes the attributes of the
  tag at hand only, and whether a tag is visited is decided by its own name and attributes.
  So the pass is the traversal of the tree in document order by a function on the name and
  the attributes of a tag, which returns the attributes unchanged for a tag that
  \<open>find_all\<close> does not list; the first raise ends the traversal.
\<close>

fun update_tag :: "(string \<Rightarrow> attrs \<Rightarrow> py_error + attrs) \<Rightarrow> node \<Rightarrow> py_error + node"
  and update_tags :: "(string \<Rightarrow> attrs \<Rightarrow> py_error + attrs) \<Rightarrow> node list \<Rightarrow> py_error + node list"
  where
  "update_tag f (Text s) = Inr (Text s)"
| "update_tag f (Tag name as contents) =
     (case f name as of
        Inl e \<Rightarrow> Inl e
      | Inr as' \<Rightarrow>
          (case update_tags f contents of
             Inl e \<Rightarrow> Inl e
           | Inr contents' \<Rightarrow> Inr (Tag name as' contents')))"
| "update_tags f [] = Inr []"
| "update_tags f (n # ns) =
     (case update_tag f n of
        Inl e \<Rightarrow> Inl e
      | Inr n' \<Rightarrow>
          (case update_tags f ns of
             Inl e \<Rightarrow> Inl e
           | Inr ns' \<Rightarrow> Inr (n' # ns')))"

text \<open>The paths written, for the root document (\<open>index\<close>) and for a page beside it.\<close>

definition content_path :: "bool \<Rightarrow> string \<Rightarrow> string" where
  "content_path index fileName =
     (if index then ''./content/'' @ fileName else ''../content/'' @ fileName)"

definition formatting_path :: "bool \<Rightarrow> string \<Rightarrow> string" where
  "formatting_path index fileName =
     (if index then ''./formatting/'' @ fileName else ''../formatting/'' @ fileName)"

definition page_path :: "bool \<Rightarrow> string \<Rightarrow> string" where
  "page_path index pageFileName =
     (if index then ''./pages/'' @ pageFileName
      else if pageFileName \<noteq> ''index.html'' then pageFileName
      else ''../'' @ pageFileName)"

subsection \<open>\<open>update_file_urls\<close>\<close>

text \<open>
  The body of the inner loop, for one pair of the table. The \<open>case\<close> on the attribute
  is the guard \<open>item.has_attr(...)\<close>, so this pass never raises.
\<close>

definition file_url_step :: "bool \<Rightarrow> string \<times> string \<Rightarrow> attrs \<Rightarrow> attrs" where
  "file_url_step index idName item =
     (let item1 =
            (case map_of item ''href'' of
               None \<Rightarrow> item
             | Some href \<Rightarrow>
                 if py_find href (fst idName) > 0
                 then AList.update ''href'' (content_path index (snd idName)) item
                 else item)
      in case map_of item1 ''src'' of
           None \<Rightarrow> item1
         | Some src \<Rightarrow>
             if py_find src (fst idName) > 0
             then AList.update ''src'' (content_path index (snd idName)) item1
             else item1)"

definition file_url_tag :: "file_dict \<Rightarrow> bool \<Rightarrow> string \<Rightarrow> attrs \<Rightarrow> py_error + attrs" where
  "file_url_tag fileDict index name item =
     (if selects [''a'', ''img''] [] (name, item)
      then Inr (fold (file_url_step index) (zip (fileIds fileDict) (fileNames fileDict)) item)
      else Inr item)"

definition update_file_urls :: "file_dict \<Rightarrow> bool \<Rightarrow> soup \<Rightarrow> py_error + soup" where
  "update_file_urls fileDict index soup = update_tags (file_url_tag fileDict index) soup"

subsection \<open>\<open>update_css_urls\<close>\<close>

definition css_url_step :: "bool \<Rightarrow> string \<times> string \<Rightarrow> attrs \<Rightarrow> py_error + attrs" where
  "css_url_step index urlName a =
     (case get_attr a ''href'' of
        Inl e \<Rightarrow> Inl e
      | Inr href \<Rightarrow>
          if py_find (fst urlName) href > 0
          then Inr (AList.update ''href'' (formatting_path index (snd urlName)) a)
          else Inr a)"

definition css_url_tag :: "file_dict \<Rightarrow> bool \<Rightarrow> string \<Rightarrow> attrs \<Rightarrow> py_error + attrs" where
  "css_url_tag fileDict index name a =
     (if selects [''link''] [(''type'', ''text/css'')] (name, a)
      then for_each (css_url_step index) (zip (cssUrls fileDict) (cssFileNames fileDict)) a
      else Inr a)"

definition update_css_urls :: "file_dict \<Rightarrow> bool \<Rightarrow> soup \<Rightarrow> py_error + soup" where
  "update_css_urls fileDict index soup = update_tags (css_url_tag fileDict index) soup"

subsection \<open>\<open>update_image_urls\<close>\<close>

text \<open>
  \<open>urlpath imgUrl\<close> stands for \<open>urllib.parse.urlparse(imgUrl).path\<close>, of the standard
  library; it is an argument. \<open>urlparse\<close> does not accept every text (it raises
  \<open>ValueError\<close> on an address with an unmatched bracket, for one), so \<open>urlpath\<close> returns
  the path or raises. The address is parsed only after \<open>img['src']\<close> was read and found
  without \<open>d2lFile\<close>.
\<close>

definition image_url_step ::
  "(string \<Rightarrow> py_error + string) \<Rightarrow> bool \<Rightarrow> string \<times> string \<Rightarrow> attrs
     \<Rightarrow> py_error + attrs" where
  "image_url_step urlpath index urlName img =
     (case get_attr img ''src'' of
        Inl e \<Rightarrow> Inl e
      | Inr src \<Rightarrow>
          if py_find src ''d2lFile'' < 0 then
            (case urlpath (fst urlName) of
               Inl e \<Rightarrow> Inl e
             | Inr path \<Rightarrow>
                 if src = path
                 then Inr (AList.update ''src'' (formatting_path index (snd urlName)) img)
                 else Inr img)
          else Inr img)"

definition image_url_tag ::
  "(string \<Rightarrow> py_error + string) \<Rightarrow> file_dict \<Rightarrow> bool \<Rightarrow> string \<Rightarrow> attrs
     \<Rightarrow> py_error + attrs" where
  "image_url_tag urlpath fileDict index name img =
     (if selects [''img''] [] (name, img)
      then for_each (image_url_step urlpath index)
             (zip (imgUrls fileDict) (imgFileNames fileDict)) img
      else Inr img)"

definition update_image_urls ::
  "(string \<Rightarrow> py_error + string) \<Rightarrow> file_dict \<Rightarrow> bool \<Rightarrow> soup \<Rightarrow> py_error + soup" where
  "update_image_urls urlpath fileDict index soup =
     update_tags (image_url_tag urlpath fileDict index) soup"

subsection \<open>\<open>update_page_urls\<close>\<close>

text \<open>
  The first loop, \<open>div.contents[0]['href'] = "#"\<close> for every \<open>div\<close> of the class of the
  current page. The flag tells that the node at hand is \<open>contents[0]\<close> of such a \<open>div\<close>:
  a tag then gets the attribute, and a text node raises \<open>TypeError\<close>, since a string takes
  no item assignment. A \<open>div\<close> of the class without contents raises \<open>IndexError\<close>.
\<close>

definition is_current_page :: "string \<Rightarrow> attrs \<Rightarrow> bool" where
  "is_current_page name a = selects [''div''] [(''class'', ''d_t_nav_current_page'')] (name, a)"

fun mark_current_node :: "bool \<Rightarrow> node \<Rightarrow> py_error + node"
  and mark_current :: "bool \<Rightarrow> node list \<Rightarrow> py_error + node list" where
  "mark_current_node first (Text s) = (if first then Inl TypeError else Inr (Text s))"
| "mark_current_node first (Tag name as contents) =
     (if is_current_page name as \<and> contents = [] then Inl IndexError
      else
        (case mark_current (is_current_page name as) contents of
           Inl e \<Rightarrow> Inl e
         | Inr contents' \<Rightarrow>
             Inr (Tag name (if first then AList.update ''href'' ''#'' as else as) contents')))"
| "mark_current first [] = Inr []"
| "mark_current first (n # ns) =
     (case mark_current_node first n of
        Inl e \<Rightarrow> Inl e
      | Inr n' \<Rightarrow>
          (case mark_current False ns of
             Inl e \<Rightarrow> Inl e
           | Inr ns' \<Rightarrow> Inr (n' # ns')))"

definition page_url_step :: "bool \<Rightarrow> string \<times> string \<Rightarrow> attrs \<Rightarrow> py_error + attrs" where
  "page_url_step index idName a =
     (case get_attr a ''onclick'' of
        Inl e \<Rightarrow> Inl e
      | Inr onclick \<Rightarrow>
          if py_find onclick (fst idName) > 0
          then Inr (AList.update ''href'' (page_path index (snd idName)) a)
          else Inr a)"

definition page_url_tag :: "file_dict \<Rightarrow> bool \<Rightarrow> string \<Rightarrow> attrs \<Rightarrow> py_error + attrs" where
  "page_url_tag fileDict index name a =
     (if selects [''a''] [(''href'', ''javascript://'')] (name, a)
      then for_each (page_url_step index) (zip (pageIds fileDict) (pageFileNames fileDict)) a
      else Inr a)"

definition update_page_urls :: "file_dict \<Rightarrow> bool \<Rightarrow> soup \<Rightarrow> py_error + soup" where
  "update_page_urls fileDict index soup =
     (case mark_current False soup of
        Inl e \<Rightarrow> Inl e
      | Inr soup' \<Rightarrow> update_tags (page_url_tag fileDict index) soup')"

subsection \<open>The four passes of \<open>update_page\<close>\<close>

text \<open>
  \<open>update_page\<close> parses the file, runs the four passes below, strips the scripts and writes
  the document. \<open>update_links\<close> is the four passes, in the order of the source.
\<close>

definition update_links ::
  "(string \<Rightarrow> py_error + string) \<Rightarrow> file_dict \<Rightarrow> bool \<Rightarrow> soup \<Rightarrow> py_error + soup" where
  "update_links urlpath fileDict index soup =
     (case update_file_urls fileDict index soup of
        Inl e \<Rightarrow> Inl e
      | Inr soup1 \<Rightarrow>
          (case update_css_urls fileDict index soup1 of
             Inl e \<Rightarrow> Inl e
           | Inr soup2 \<Rightarrow>
               (case update_image_urls urlpath fileDict index soup2 of
                  Inl e \<Rightarrow> Inl e
                | Inr soup3 \<Rightarrow> update_page_urls fileDict index soup3)))"

subsection \<open>Traversals that change nothing, and traversals that raise\<close>

lemma update_tags_id:
  "(\<And>name a. (name, a) \<in> set (tags_of n) \<Longrightarrow> f name a = Inr a) \<Longrightarrow> update_tag f n = Inr n"
  "(\<And>name a. (name, a) \<in> set (tags ns) \<Longrightarrow> f name a = Inr a) \<Longrightarrow> update_tags f ns = Inr ns"
  by (induction f n and f ns rule: update_tag_update_tags.induct) auto

lemma update_tags_raises:
  "(name, a) \<in> set (tags_of n) \<Longrightarrow> f name a = Inl e0 \<Longrightarrow> \<exists>e. update_tag f n = Inl e"
  "(name, a) \<in> set (tags ns) \<Longrightarrow> f name a = Inl e0 \<Longrightarrow> \<exists>e. update_tags f ns = Inl e"
  by (induction f n and f ns rule: update_tag_update_tags.induct) (auto split: sum.splits)

lemma update_tags_error:
  "(\<And>name a e. f name a = Inl e \<Longrightarrow> P e) \<Longrightarrow> update_tag f n = Inl e \<Longrightarrow> P e"
  "(\<And>name a e. f name a = Inl e \<Longrightarrow> P e) \<Longrightarrow> update_tags f ns = Inl e \<Longrightarrow> P e"
  by (induction f n and f ns rule: update_tag_update_tags.induct) (auto split: sum.splits)

lemma find_all_name_iff:
  "a \<in> set (find_all [name] [] soup) \<longleftrightarrow> (name, a) \<in> set (tags soup)"
  by (force simp: find_all_def selects_def)

subsection \<open>Formatting images: the table of file names stays empty\<close>




lemma update_image_urls_no_names:
  "imgFileNames fd = [] \<Longrightarrow> update_image_urls urlpath fd index soup = Inr soup"
  unfolding update_image_urls_def
  by (rule update_tags_id) (simp add: image_url_tag_def)


lemma populate_page_image_example:
  "populate_page ''https://example.org'' file_name_of
     [Tag ''img'' [(''src'', ''/img/bg.png'')] []] make_file_dict
   = Inr (make_file_dict\<lparr>imgUrls := [''https://example.org/img/bg.png'']\<rparr>)"
  by (simp add: collect_eval)

text \<open>
  Claim C1: an image whose \<open>src\<close> is the path of a formatting image of the index gets the
  \<open>src\<close> \<open>./formatting/<name>\<close> in the root document and \<open>../formatting/<name>\<close>
  elsewhere. \<open>update_image_urls\<close> pairs \<open>imgUrls\<close> with \<open>imgFileNames\<close>, and nothing
  ever appends to \<open>imgFileNames\<close>: \<open>get_img\<close> registers the address only (where
  \<open>get_css\<close> registers address and file name). The pairing is empty after every
  collection, and the pass leaves every image as it was, here the image of the page that
  registered it.
\<close>

theorem formatting_image_not_rewritten:
  "populate_page ''https://example.org'' file_name_of
     [Tag ''img'' [(''src'', ''/img/bg.png'')] []] make_file_dict
   = Inr (make_file_dict\<lparr>imgUrls := [''https://example.org/img/bg.png'']\<rparr>)
   \<and> update_image_urls urlpath (make_file_dict\<lparr>imgUrls := [''https://example.org/img/bg.png'']\<rparr>)
       index [Tag ''img'' [(''src'', ''/img/bg.png'')] []]
     = Inr [Tag ''img'' [(''src'', ''/img/bg.png'')] []]"
  by (simp add: populate_page_image_example update_image_urls_no_names)
    (simp add: make_file_dict_def update_image_urls_no_names)

subsection \<open>A tag without the attribute that is read\<close>



text \<open>
  \<open>update_image_urls\<close> reads \<open>img['src']\<close> in its inner loop, once for every pair of
  \<open>zip(imgUrls, imgFileNames)\<close>. Were there such a pair, an image without \<open>src\<close> would
  end the pass at its first pair; the raise is the \<open>KeyError\<close> of that image or of one
  before it, or what \<open>urlparse\<close> raised on an address of the index for an image before
  it.
\<close>

lemma image_url_tag_no_src:
  assumes "map_of img ''src'' = None" and "zip (imgUrls fd) (imgFileNames fd) \<noteq> []"
  shows "image_url_tag urlpath fd index ''img'' img = Inl KeyError"
proof -
  obtain p ps where "zip (imgUrls fd) (imgFileNames fd) = p # ps"
    using assms(2) by (cases "zip (imgUrls fd) (imgFileNames fd)") auto
  then show ?thesis
    using assms(1) by (simp add: image_url_tag_def selects_def image_url_step_def get_attr_def)
qed

lemma image_url_step_error:
  "image_url_step urlpath index p img = Inl e \<Longrightarrow> e = KeyError \<or> urlpath (fst p) = Inl e"
  by (auto simp: image_url_step_def get_attr_def split: option.splits if_splits sum.splits)

lemma for_each_image_url_step_error:
  "for_each (image_url_step urlpath index) ps img = Inl e
     \<Longrightarrow> e = KeyError \<or> (\<exists>p\<in>set ps. urlpath (fst p) = Inl e)"
proof (induction ps arbitrary: img)
  case Nil
  then show ?case by simp
next
  case (Cons p ps)
  then show ?case
    by (cases "image_url_step urlpath index p img") (auto dest: image_url_step_error)
qed

lemma image_url_tag_error:
  assumes "image_url_tag urlpath fd index name img = Inl e"
  shows "e = KeyError \<or> (\<exists>u\<in>set (imgUrls fd). urlpath u = Inl e)"
proof -
  from assms have "for_each (image_url_step urlpath index)
      (zip (imgUrls fd) (imgFileNames fd)) img = Inl e"
    by (auto simp: image_url_tag_def split: if_splits)
  from for_each_image_url_step_error [OF this] show ?thesis
    by (auto dest: set_zip_leftD)
qed

lemma update_image_urls_no_src:
  assumes "img \<in> set (find_all [''img''] [] soup)" and "map_of img ''src'' = None"
    and "zip (imgUrls fd) (imgFileNames fd) \<noteq> []"
  shows "\<exists>e. update_image_urls urlpath fd index soup = Inl e
           \<and> (e = KeyError \<or> (\<exists>u\<in>set (imgUrls fd). urlpath u = Inl e))"
proof -
  from assms(1) have "(''img'', img) \<in> set (tags soup)"
    by (simp add: find_all_name_iff)
  then have "\<exists>e. update_image_urls urlpath fd index soup = Inl e"
    unfolding update_image_urls_def
    using image_url_tag_no_src [OF assms(2,3)] by (rule update_tags_raises(2))
  then obtain e where e: "update_image_urls urlpath fd index soup = Inl e" ..
  then have "e = KeyError \<or> (\<exists>u\<in>set (imgUrls fd). urlpath u = Inl e)"
    unfolding update_image_urls_def
    by (rule update_tags_error(2) [rotated]) (rule image_url_tag_error)
  then show ?thesis
    using e by simp
qed






subsection \<open>The tags after a traversal\<close>

lemma update_tags_tags:
  "update_tag f n = Inr n' \<Longrightarrow>
     list_all2 (\<lambda>t t'. fst t' = fst t \<and> f (fst t) (snd t) = Inr (snd t')) (tags_of n) (tags_of n')"
  "update_tags f ns = Inr ns' \<Longrightarrow>
     list_all2 (\<lambda>t t'. fst t' = fst t \<and> f (fst t) (snd t) = Inr (snd t')) (tags ns) (tags ns')"
proof (induction f n and f ns arbitrary: n' and ns' rule: update_tag_update_tags.induct)
  case (1 f s)
  then show ?case by auto
next
  case (2 f name as contents)
  then show ?case by (auto split: sum.splits)
next
  case (3 f)
  then show ?case by auto
next
  case (4 f n ns)
  from "4.prems" obtain n1 ns1 where
    r: "update_tag f n = Inr n1" "update_tags f ns = Inr ns1" "ns' = n1 # ns1"
    by (auto split: sum.splits)
  show ?case
    using "4.IH"(1) [OF r(1)] "4.IH"(2) [OF r(1,2)] r(3)
    by (auto intro: list_all2_appendI)
qed

subsection \<open>Links between the pages\<close>

text \<open>
  What the second loop of \<open>update_page_urls\<close> does to a tag, in one step: an anchor whose
  \<open>href\<close> is \<open>javascript://\<close> gets the path of the last page of the index, in the order
  of the index, whose id occurs in its \<open>onclick\<close> text at an index above 0; any other tag,
  and an anchor with no such page, stays as it is.
\<close>

definition page_link :: "file_dict \<Rightarrow> bool \<Rightarrow> string \<times> attrs \<Rightarrow> string \<times> attrs" where
  "page_link fileDict index t =
     (if fst t = ''a'' \<and> map_of (snd t) ''href'' = Some ''javascript://'' then
        (case filter (\<lambda>p. 0 < py_find (case_option [] id (map_of (snd t) ''onclick'')) (fst p))
                (zip (pageIds fileDict) (pageFileNames fileDict)) of
           [] \<Rightarrow> t
         | m # ms \<Rightarrow>
             (fst t, AList.update ''href'' (page_path index (snd (last (m # ms)))) (snd t)))
      else t)"

lemma get_attr_update_other:
  "k \<noteq> k' \<Longrightarrow> get_attr (AList.update k v a) k' = get_attr a k'"
  by (simp add: get_attr_def update_conv')

lemma for_each_page_url_step:
  "get_attr a ''onclick'' = Inr oc \<Longrightarrow>
   for_each (page_url_step index) ps a =
     Inr (case filter (\<lambda>p. 0 < py_find oc (fst p)) ps of
            [] \<Rightarrow> a
          | m # ms \<Rightarrow> AList.update ''href'' (page_path index (snd (last (m # ms)))) a)"
proof (induction ps arbitrary: a)
  case Nil
  then show ?case by simp
next
  case (Cons p ps)
  show ?case
  proof (cases "0 < py_find oc (fst p)")
    case True
    let ?a1 = "AList.update ''href'' (page_path index (snd p)) a"
    have "get_attr ?a1 ''onclick'' = Inr oc"
      using Cons.prems by (simp add: get_attr_update_other)
    from Cons.IH [OF this] show ?thesis
      using True Cons.prems by (simp add: page_url_step_def split: list.splits)
  next
    case False
    from Cons.IH [OF Cons.prems] show ?thesis
      using False Cons.prems by (simp add: page_url_step_def)
  qed
qed

lemma page_fold_eq:
  assumes "for_each (page_url_step index) ps a = Inr a'"
  shows "a' = (case filter (\<lambda>p. 0 < py_find (case_option [] id (map_of a ''onclick'')) (fst p)) ps of
            [] \<Rightarrow> a
          | m # ms \<Rightarrow> AList.update ''href'' (page_path index (snd (last (m # ms)))) a)"
proof (cases "map_of a ''onclick''")
  case None
  then have "ps = []"
    using assms by (cases ps) (auto simp: page_url_step_def get_attr_def)
  then show ?thesis using assms by simp
next
  case (Some oc)
  then have "get_attr a ''onclick'' = Inr oc"
    by (simp add: get_attr_def)
  from for_each_page_url_step [OF this, of index ps] show ?thesis
    using assms Some by simp
qed

lemma page_url_tag_eq:
  assumes "page_url_tag fd index name a = Inr a'"
  shows "(name, a') = page_link fd index (name, a)"
proof (cases "selects [''a''] [(''href'', ''javascript://'')] (name, a)")
  case False
  then show ?thesis
    using assms by (auto simp: page_url_tag_def page_link_def selects_def attr_matches_def
        split: option.splits)
next
  case True
  then have sel: "name = ''a''" "map_of a ''href'' = Some ''javascript://''"
    by (auto simp: selects_def attr_matches_def split: option.splits if_splits)
  from assms True have "for_each (page_url_step index) (zip (pageIds fd) (pageFileNames fd)) a
      = Inr a'"
    by (simp add: page_url_tag_def)
  from page_fold_eq [OF this] show ?thesis
    using sel by (simp add: page_link_def split: list.splits)
qed

lemma list_all2_map_eq: "list_all2 (\<lambda>x y. y = g x) xs ys \<Longrightarrow> ys = map g xs"
  by (induction rule: list_all2_induct) auto

lemmas rewrite_eval =
  update_links_def update_file_urls_def update_css_urls_def update_image_urls_def
  update_page_urls_def file_url_tag_def file_url_step_def css_url_tag_def css_url_step_def
  image_url_tag_def image_url_step_def page_url_tag_def page_url_step_def is_current_page_def
  selects_def attr_matches_def isspace_def get_attr_def py_find_def content_path_def
  formatting_path_def page_path_def make_file_dict_def Let_def

definition menu_index :: file_dict where
  "menu_index =
     make_file_dict\<lparr>pageFileNames := [''index.html'', ''reflections.html''],
                     pageIds := [''1234'', ''5678'']\<rparr>"

definition root_menu :: soup where
  "root_menu =
     [Tag ''div'' [(''class'', ''d_t_nav_current_page'')]
        [Tag ''a'' [(''href'', ''javascript://''), (''onclick'', ''GotoPage(1234,0);'')]
           [Text ''Home'']],
      Tag ''a'' [(''href'', ''javascript://''), (''onclick'', ''GotoPage(1234,5678);'')]
        [Text ''Reflections'']]"

definition page_menu :: soup where
  "page_menu =
     [Tag ''a'' [(''href'', ''javascript://''), (''onclick'', ''GotoPage(1234,0);'')]
        [Text ''Home''],
      Tag ''div'' [(''class'', ''d_t_nav_current_page'')]
        [Tag ''a'' [(''href'', ''javascript://''), (''onclick'', ''GotoPage(1234,5678);'')]
           [Text ''Reflections'']]]"

lemma root_menu_marked:
  "mark_current False root_menu =
     Inr [Tag ''div'' [(''class'', ''d_t_nav_current_page'')]
            [Tag ''a'' [(''href'', ''#''), (''onclick'', ''GotoPage(1234,0);'')]
               [Text ''Home'']],
          Tag ''a'' [(''href'', ''javascript://''), (''onclick'', ''GotoPage(1234,5678);'')]
            [Text ''Reflections'']]"
  by (simp add: root_menu_def rewrite_eval)

lemma root_menu_rewritten:
  "update_page_urls menu_index True root_menu =
     Inr [Tag ''div'' [(''class'', ''d_t_nav_current_page'')]
            [Tag ''a'' [(''href'', ''#''), (''onclick'', ''GotoPage(1234,0);'')]
               [Text ''Home'']],
          Tag ''a'' [(''href'', ''./pages/reflections.html''),
                     (''onclick'', ''GotoPage(1234,5678);'')]
            [Text ''Reflections'']]"
  by (simp add: root_menu_def menu_index_def rewrite_eval)

lemma page_menu_rewritten:
  "update_page_urls menu_index False page_menu =
     Inr [Tag ''a'' [(''href'', ''../index.html''), (''onclick'', ''GotoPage(1234,0);'')]
            [Text ''Home''],
          Tag ''div'' [(''class'', ''d_t_nav_current_page'')]
            [Tag ''a'' [(''href'', ''#''), (''onclick'', ''GotoPage(1234,5678);'')]
               [Text ''Reflections'']]]"
  by (simp add: page_menu_def menu_index_def rewrite_eval)

lemma substring_menu_rewritten:
  "update_page_urls
     (make_file_dict\<lparr>pageFileNames := [''index.html'', ''work.html'', ''about.html''],
                      pageIds := [''1234'', ''5678'', ''567'']\<rparr>) True
     [Tag ''a'' [(''href'', ''javascript://''), (''onclick'', ''GotoPage(1234,5678);'')]
        [Text ''Work'']]
   = Inr [Tag ''a'' [(''href'', ''./pages/about.html''), (''onclick'', ''GotoPage(1234,5678);'')]
            [Text ''Work'']]"
  by (simp add: rewrite_eval)

text \<open>
  Claim C5, as stated: a navigation anchor whose page id is that of a page of the index
  gets the path of that page. It fails in two ways. The id is searched as a piece of text
  and the last page that matches wins: with the pages 1234, 5678 and 567, the anchor of
  page 5678 gets the file of page 567. And the anchor that is the first child of the
  \<open>div\<close> of the current page gets \<open>#\<close>, whatever page it names.
\<close>

theorem page_link_counterexample:
  "get_page_id ''GotoPage(1234,5678);'' ''1234'' = Inr ''5678''
   \<and> update_page_urls
       (make_file_dict\<lparr>pageFileNames := [''index.html'', ''work.html'', ''about.html''],
                        pageIds := [''1234'', ''5678'', ''567'']\<rparr>) True
       [Tag ''a'' [(''href'', ''javascript://''), (''onclick'', ''GotoPage(1234,5678);'')]
          [Text ''Work'']]
     = Inr [Tag ''a'' [(''href'', ''./pages/about.html''), (''onclick'', ''GotoPage(1234,5678);'')]
              [Text ''Work'']]
   \<and> update_page_urls menu_index False page_menu =
     Inr [Tag ''a'' [(''href'', ''../index.html''), (''onclick'', ''GotoPage(1234,0);'')]
            [Text ''Home''],
          Tag ''div'' [(''class'', ''d_t_nav_current_page'')]
            [Tag ''a'' [(''href'', ''#''), (''onclick'', ''GotoPage(1234,5678);'')]
               [Text ''Reflections'']]]"
  by (simp add: substring_menu_rewritten page_menu_rewritten)
    (simp add: get_page_id_eq py_find_def slice_from_def clip_def isdigit_def)

text \<open>
  Claim C5, amended: after the first child of every \<open>div\<close> of class
  \<open>d_t_nav_current_page\<close> got the \<open>href\<close> \<open>#\<close>, every anchor whose \<open>href\<close> is
  \<open>javascript://\<close> and whose \<open>onclick\<close> text holds the id of a page of the index at an
  index above 0 gets its \<open>href\<close> from the last such page of the index:
  \<open>./pages/<name>\<close> in the root document; in any other document \<open><name>\<close> when the
  name is not \<open>index.html\<close> and \<open>../index.html\<close> when it is. Every other tag keeps its
  attributes.
\<close>

theorem page_links_rewritten:
  assumes "update_page_urls fileDict index soup = Inr soup'"
  shows "(\<exists>soup1. mark_current False soup = Inr soup1
            \<and> tags soup' = map (page_link fileDict index) (tags soup1))
         \<and> page_path True name = ''./pages/'' @ name
         \<and> page_path False ''index.html'' = ''../index.html''
         \<and> (name \<noteq> ''index.html'' \<longrightarrow> page_path False name = name)"
proof -
  from assms obtain soup1 where
    m: "mark_current False soup = Inr soup1" and
    u: "update_tags (page_url_tag fileDict index) soup1 = Inr soup'"
    by (auto simp: update_page_urls_def split: sum.splits)
  have "list_all2 (\<lambda>t t'. t' = page_link fileDict index t) (tags soup1) (tags soup')"
    using update_tags_tags(2) [OF u]
    by (rule list_all2_mono) (use page_url_tag_eq in \<open>metis prod.collapse\<close>)
  then have "tags soup' = map (page_link fileDict index) (tags soup1)"
    by (rule list_all2_map_eq)
  then show ?thesis
    using m by (simp add: page_path_def)
qed


theorem page_links_rewritten_witness:
  "update_page_urls menu_index True root_menu =
     Inr [Tag ''div'' [(''class'', ''d_t_nav_current_page'')]
            [Tag ''a'' [(''href'', ''#''), (''onclick'', ''GotoPage(1234,0);'')]
               [Text ''Home'']],
          Tag ''a'' [(''href'', ''./pages/reflections.html''),
                     (''onclick'', ''GotoPage(1234,5678);'')]
            [Text ''Reflections'']]
   \<and> [(''div'', [(''class'', ''d_t_nav_current_page'')]),
       (''a'', [(''href'', ''#''), (''onclick'', ''GotoPage(1234,0);'')]),
       (''a'', [(''href'', ''./pages/reflections.html''), (''onclick'', ''GotoPage(1234,5678);'')])]
     = map (page_link menu_index True)
         [(''div'', [(''class'', ''d_t_nav_current_page'')]),
          (''a'', [(''href'', ''#''), (''onclick'', ''GotoPage(1234,0);'')]),
          (''a'', [(''href'', ''javascript://''), (''onclick'', ''GotoPage(1234,5678);'')])]
   \<and> ''reflections.html'' \<noteq> ''index.html''
   \<and> page_path False ''reflections.html'' = ''reflections.html''
   \<and> page_path True ''reflections.html'' = ''./pages/reflections.html''
   \<and> page_path False ''index.html'' = ''../index.html''"
proof -
  have n: "''reflections.html'' \<noteq> ''index.html''"
    by simp
  show ?thesis
    using page_links_rewritten [OF root_menu_rewritten, of "''reflections.html''"] n
    by (simp add: root_menu_marked root_menu_rewritten)
qed

section \<open>Rewriting a page twice\<close>

text \<open>
  Through the loop of \<open>update_file_urls\<close>, the value of \<open>href\<close> or \<open>src\<close> ends as a
  content path the loop wrote, or it is the value the tag came with and no id of the table
  occurs in it.
\<close>

lemma file_url_step_map_of:
  "map_of (file_url_step index p a) k =
     (if k = ''href'' \<or> k = ''src''
      then map_option (\<lambda>v. if 0 < py_find v (fst p) then content_path index (snd p) else v)
             (map_of a k)
      else map_of a k)"
  by (auto simp: file_url_step_def Let_def update_conv' split: option.splits)

lemma file_url_step_noop:
  assumes "\<And>v. map_of a ''href'' = Some v \<Longrightarrow> \<not> 0 < py_find v (fst p)"
    and "\<And>v. map_of a ''src'' = Some v \<Longrightarrow> \<not> 0 < py_find v (fst p)"
  shows "file_url_step index p a = a"
  using assms by (auto simp: file_url_step_def Let_def split: option.splits)

lemma fold_file_url_step_noop:
  assumes "\<And>v p. map_of a ''href'' = Some v \<Longrightarrow> p \<in> set ps \<Longrightarrow> \<not> 0 < py_find v (fst p)"
    and "\<And>v p. map_of a ''src'' = Some v \<Longrightarrow> p \<in> set ps \<Longrightarrow> \<not> 0 < py_find v (fst p)"
  shows "fold (file_url_step index) ps a = a"
  using assms
proof (induction ps)
  case Nil
  then show ?case by simp
next
  case (Cons p ps)
  have "file_url_step index p a = a"
    by (rule file_url_step_noop) (use Cons.prems in auto)
  then show ?case using Cons by simp
qed

lemma fold_file_url_step_values:
  assumes "k = ''href'' \<or> k = ''src''"
    and "map_of (fold (file_url_step index) ps a) k = Some v"
  shows "v \<in> (\<lambda>p. content_path index (snd p)) ` set ps
         \<or> (map_of a k = Some v \<and> (\<forall>p\<in>set ps. \<not> 0 < py_find v (fst p)))"
  using assms(2)
proof (induction ps arbitrary: a)
  case Nil
  then show ?case by simp
next
  case (Cons p ps)
  from Cons.IH [of "file_url_step index p a"] Cons.prems
  consider "v \<in> (\<lambda>p. content_path index (snd p)) ` set ps"
    | "map_of (file_url_step index p a) k = Some v" "\<forall>p\<in>set ps. \<not> 0 < py_find v (fst p)"
    by auto
  then show ?case
  proof cases
    case 1
    then show ?thesis by auto
  next
    case 2
    then show ?thesis
      using assms(1) by (auto simp: file_url_step_map_of split: if_splits)
  qed
qed

lemma fold_file_url_step_others:
  "k \<noteq> ''href'' \<Longrightarrow> k \<noteq> ''src'' \<Longrightarrow> map_of (fold (file_url_step index) ps a) k = map_of a k"
  by (induction ps arbitrary: a) (auto simp: file_url_step_map_of)

lemma fold_file_url_step_dom:
  "(map_of (fold (file_url_step index) ps a) k = None) = (map_of a k = None)"
  by (induction ps arbitrary: a) (auto simp: file_url_step_map_of)

text \<open>
  The steps of \<open>update_css_urls\<close> and \<open>update_image_urls\<close> have one shape: read an
  attribute, and replace it when it matches the entry at hand.
\<close>

definition replace_step ::
  "string \<Rightarrow> ('p \<Rightarrow> string \<Rightarrow> bool) \<Rightarrow> ('p \<Rightarrow> string) \<Rightarrow> 'p \<Rightarrow> attrs \<Rightarrow> py_error + attrs" where
  "replace_step key matches path p a =
     (case get_attr a key of
        Inl e \<Rightarrow> Inl e
      | Inr v \<Rightarrow> if matches p v then Inr (AList.update key (path p) a) else Inr a)"

lemma css_url_step_replace:
  "css_url_step index =
     replace_step ''href'' (\<lambda>p v. 0 < py_find (fst p) v) (\<lambda>p. formatting_path index (snd p))"
  by (rule ext)+ (simp add: css_url_step_def replace_step_def split: sum.splits)

text \<open>
  A step of \<open>update_image_urls\<close> that returns is such a step too: the entry matches when
  the attribute is without \<open>d2lFile\<close> and is the path of the entry's address.
\<close>

lemma image_url_step_replace:
  assumes "image_url_step urlpath index p a = Inr a'"
  shows "replace_step ''src'' (\<lambda>p v. py_find v ''d2lFile'' < 0 \<and> urlpath (fst p) = Inr v)
           (\<lambda>p. formatting_path index (snd p)) p a = Inr a'"
  using assms
  by (auto simp: image_url_step_def replace_step_def split: sum.splits if_splits)

lemma for_each_image_url_step_replace:
  assumes "for_each (image_url_step urlpath index) ps a = Inr a'"
  shows "for_each (replace_step ''src'' (\<lambda>p v. py_find v ''d2lFile'' < 0 \<and> urlpath (fst p) = Inr v)
           (\<lambda>p. formatting_path index (snd p))) ps a = Inr a'"
  using assms
proof (induction ps arbitrary: a)
  case Nil
  then show ?case by simp
next
  case (Cons p ps)
  from Cons.prems obtain a1 where
    a1: "image_url_step urlpath index p a = Inr a1"
      "for_each (image_url_step urlpath index) ps a1 = Inr a'"
    by (auto split: sum.splits)
  show ?case
    using image_url_step_replace [OF a1(1)] Cons.IH [OF a1(2)] by simp
qed

text \<open>
  An image whose \<open>src\<close> holds \<open>d2lFile\<close> is left alone, and no address is parsed for it.
  So when the loop over the entries returns an image whose \<open>src\<close> is without \<open>d2lFile\<close>,
  the address of every entry was parsed, and parsed without a raise.
\<close>

lemma image_url_step_embedded:
  assumes "map_of a ''src'' = Some v" and "\<not> py_find v ''d2lFile'' < 0"
  shows "for_each (image_url_step urlpath index) ps a = Inr a"
  using assms by (induction ps) (auto simp: image_url_step_def get_attr_def)

lemma image_url_step_parsed:
  assumes "for_each (image_url_step urlpath index) ps a = Inr a'"
    and "map_of a' ''src'' = Some v'" and "py_find v' ''d2lFile'' < 0"
    and "p \<in> set ps"
  shows "\<exists>path. urlpath (fst p) = Inr path"
  using assms(1,4)
proof (induction ps arbitrary: a)
  case Nil
  then show ?case by simp
next
  case (Cons q ps)
  from Cons.prems(1) obtain a1 where
    a1: "image_url_step urlpath index q a = Inr a1"
      "for_each (image_url_step urlpath index) ps a1 = Inr a'"
    by (auto split: sum.splits)
  from a1(1) obtain v where v: "map_of a ''src'' = Some v"
    by (auto simp: image_url_step_def get_attr_def split: option.splits)
  have lacks: "py_find v ''d2lFile'' < 0"
  proof (rule ccontr)
    assume n: "\<not> py_find v ''d2lFile'' < 0"
    from image_url_step_embedded [OF v n, of urlpath index "q # ps"] Cons.prems(1)
    have "a' = a" by simp
    then show False using v n assms(2,3) by simp
  qed
  show ?case
  proof (cases "p = q")
    case True
    then show ?thesis
      using a1(1) v lacks
      by (auto simp: image_url_step_def get_attr_def split: sum.splits)
  next
    case False
    then show ?thesis using Cons.IH [OF a1(2)] Cons.prems(2) by simp
  qed
qed

lemma image_url_step_noop:
  assumes "map_of a ''src'' = Some v"
    and "\<And>p. p \<in> set ps \<Longrightarrow> \<exists>path. urlpath (fst p) = Inr path \<and> path \<noteq> v"
  shows "for_each (image_url_step urlpath index) ps a = Inr a"
  using assms(2)
proof (induction ps)
  case Nil
  then show ?case by simp
next
  case (Cons p ps)
  from Cons.prems [of p] obtain path where "urlpath (fst p) = Inr path" "path \<noteq> v"
    by auto
  then have "image_url_step urlpath index p a = Inr a"
    using assms(1) by (simp add: image_url_step_def get_attr_def)
  then show ?case using Cons by simp
qed

lemma replace_noop:
  "map_of a key = Some v \<Longrightarrow> (\<And>p. p \<in> set ps \<Longrightarrow> \<not> matches p v)
     \<Longrightarrow> for_each (replace_step key matches path) ps a = Inr a"
  by (induction ps) (auto simp: replace_step_def get_attr_def)

lemma replace_values:
  assumes "for_each (replace_step key matches path) ps a = Inr a'" and "ps \<noteq> []"
  shows "\<exists>v v'. map_of a key = Some v \<and> map_of a' key = Some v'
           \<and> (v' \<in> path ` set ps \<or> (v' = v \<and> (\<forall>p\<in>set ps. \<not> matches p v)))"
  using assms
proof (induction ps arbitrary: a)
  case Nil
  then show ?case by simp
next
  case (Cons p ps)
  from Cons.prems(1) obtain a1 where
    s: "replace_step key matches path p a = Inr a1" and
    r: "for_each (replace_step key matches path) ps a1 = Inr a'"
    by (auto split: sum.splits)
  from s obtain v where
    v: "map_of a key = Some v" and
    a1: "a1 = (if matches p v then AList.update key (path p) a else a)"
    by (auto simp: replace_step_def get_attr_def split: option.splits if_splits)
  show ?case
  proof (cases "ps = []")
    case True
    then show ?thesis using v a1 r by (auto simp: update_conv')
  next
    case False
    from Cons.IH [OF r False] obtain w w' where
      w: "map_of a1 key = Some w" "map_of a' key = Some w'"
        "w' \<in> path ` set ps \<or> (w' = w \<and> (\<forall>p\<in>set ps. \<not> matches p w))"
      by blast
    show ?thesis
    proof (cases "matches p v")
      case True
      then have "w = path p" using a1 w(1) by (simp add: update_conv')
      then show ?thesis using v w by auto
    next
      case False
      then have "w = v" using a1 w(1) v by simp
      then show ?thesis using v w False by auto
    qed
  qed
qed

lemma replace_others:
  "for_each (replace_step key matches path) ps a = Inr a' \<Longrightarrow> k \<noteq> key
     \<Longrightarrow> map_of a' k = map_of a k"
proof (induction ps arbitrary: a)
  case Nil
  then show ?case by simp
next
  case (Cons p ps)
  from Cons.prems(1) obtain a1 where
    a1: "replace_step key matches path p a = Inr a1"
      "for_each (replace_step key matches path) ps a1 = Inr a'"
    by (auto split: sum.splits)
  have "map_of a1 k = map_of a k"
    using a1(1) Cons.prems(2)
    by (auto simp: replace_step_def update_conv' split: sum.splits if_splits)
  then show ?case using Cons.IH [OF a1(2) Cons.prems(2)] by simp
qed


text \<open>
  The paths the passes write match no pattern of the index: no file id occurs (above index
  0) in a content path, the path of a formatting image, a page path or \<open>#\<close>; no
  stylesheet path and not \<open>#\<close> occurs (above index 0) in the address of a stylesheet; no
  path of a formatting image is the path of the address of a formatting image.
\<close>

definition inert :: "(string \<Rightarrow> py_error + string) \<Rightarrow> file_dict \<Rightarrow> bool \<Rightarrow> bool" where
  "inert urlpath fileDict index =
     (let files = zip (fileIds fileDict) (fileNames fileDict);
          sheets = zip (cssUrls fileDict) (cssFileNames fileDict);
          images = zip (imgUrls fileDict) (imgFileNames fileDict);
          pages = zip (pageIds fileDict) (pageFileNames fileDict);
          content = map (\<lambda>p. content_path index (snd p)) files;
          styles = map (\<lambda>p. formatting_path index (snd p)) sheets;
          pictures = map (\<lambda>p. formatting_path index (snd p)) images;
          links = map (\<lambda>p. page_path index (snd p)) pages
      in list_all (\<lambda>w. list_all (\<lambda>p. \<not> 0 < py_find w (fst p)) files)
           (content @ pictures @ links @ [''#''])
         \<and> list_all (\<lambda>w. list_all (\<lambda>p. \<not> 0 < py_find (fst p) w) sheets) (styles @ [''#''])
         \<and> list_all
             (\<lambda>w. list_all (\<lambda>p. \<not> (py_find w ''d2lFile'' < 0 \<and> urlpath (fst p) = Inr w)) images)
             pictures)"

lemma inert_files:
  assumes "inert urlpath fd index" and "p \<in> set (zip (fileIds fd) (fileNames fd))"
  shows "q \<in> set (zip (fileIds fd) (fileNames fd)) \<Longrightarrow> \<not> 0 < py_find (content_path index (snd q)) (fst p)"
    and "q \<in> set (zip (imgUrls fd) (imgFileNames fd)) \<Longrightarrow> \<not> 0 < py_find (formatting_path index (snd q)) (fst p)"
    and "q \<in> set (zip (pageIds fd) (pageFileNames fd)) \<Longrightarrow> \<not> 0 < py_find (page_path index (snd q)) (fst p)"
    and "\<not> 0 < py_find ''#'' (fst p)"
  using assms by (auto simp: inert_def Let_def list_all_iff)

lemma inert_sheets:
  assumes "inert urlpath fd index" and "p \<in> set (zip (cssUrls fd) (cssFileNames fd))"
  shows "q \<in> set (zip (cssUrls fd) (cssFileNames fd)) \<Longrightarrow> \<not> 0 < py_find (fst p) (formatting_path index (snd q))"
    and "\<not> 0 < py_find (fst p) ''#''"
  using assms by (auto simp: inert_def Let_def list_all_iff)

lemma inert_images:
  assumes "inert urlpath fd index" and "p \<in> set (zip (imgUrls fd) (imgFileNames fd))"
    and "q \<in> set (zip (imgUrls fd) (imgFileNames fd))"
  shows "\<not> (py_find (formatting_path index (snd q)) ''d2lFile'' < 0
            \<and> urlpath (fst p) = Inr (formatting_path index (snd q)))"
  using assms by (auto simp: inert_def Let_def list_all_iff)

lemma file_url_tag_eq:
  "file_url_tag fd index n a =
     (if n = ''a'' \<or> n = ''img''
      then Inr (fold (file_url_step index) (zip (fileIds fd) (fileNames fd)) a)
      else Inr a)"
  by (auto simp: file_url_tag_def selects_def)

lemma css_url_tag_eq:
  "css_url_tag fd index n a =
     (if n = ''link'' \<and> map_of a ''type'' = Some ''text/css''
      then for_each (replace_step ''href'' (\<lambda>p v. 0 < py_find (fst p) v)
                       (\<lambda>p. formatting_path index (snd p)))
             (zip (cssUrls fd) (cssFileNames fd)) a
      else Inr a)"
  by (auto simp: css_url_tag_def selects_def attr_matches_def css_url_step_replace
      split: option.splits)

lemma image_url_tag_eq:
  "image_url_tag urlpath fd index n a =
     (if n = ''img''
      then for_each (image_url_step urlpath index) (zip (imgUrls fd) (imgFileNames fd)) a
      else Inr a)"
  by (auto simp: image_url_tag_def selects_def)

lemma page_url_tag_other: "n \<noteq> ''a'' \<Longrightarrow> page_url_tag fd index n a = Inr a"
  by (simp add: page_url_tag_def selects_def)

lemma page_url_tag_idem:
  assumes "page_url_tag fd index n a = Inr a'"
  shows "page_url_tag fd index n a' = Inr a'"
proof (cases "selects [''a''] [(''href'', ''javascript://'')] (n, a)")
  case False
  then show ?thesis using assms by (simp add: page_url_tag_def)
next
  case True
  let ?ps = "zip (pageIds fd) (pageFileNames fd)"
  from assms True have r: "for_each (page_url_step index) ?ps a = Inr a'"
    by (simp add: page_url_tag_def)
  let ?oc = "case_option [] id (map_of a ''onclick'')"
  show ?thesis
  proof (cases "filter (\<lambda>p. 0 < py_find ?oc (fst p)) ?ps")
    case Nil
    then have "a' = a" using page_fold_eq [OF r] by simp
    then show ?thesis using assms by simp
  next
    case (Cons m ms)
    let ?w = "page_path index (snd (last (m # ms)))"
    have a': "a' = AList.update ''href'' ?w a"
      using page_fold_eq [OF r] Cons by simp
    have "?ps \<noteq> []" using Cons by auto
    then obtain oc where oc: "map_of a ''onclick'' = Some oc"
      using r by (cases ?ps; cases "map_of a ''onclick''")
        (auto simp: page_url_step_def get_attr_def)
    then have g: "get_attr a' ''onclick'' = Inr oc"
      by (simp add: a' get_attr_def update_conv')
    show ?thesis
    proof (cases "selects [''a''] [(''href'', ''javascript://'')] (n, a')")
      case False
      then show ?thesis by (simp add: page_url_tag_def)
    next
      case True
      have "for_each (page_url_step index) ?ps a' = Inr (AList.update ''href'' ?w a')"
        using for_each_page_url_step [OF g, of index ?ps] Cons oc by simp
      then show ?thesis
        using True by (simp add: page_url_tag_def a')
    qed
  qed
qed

lemma page_url_tag_values:
  assumes "page_url_tag fd index n a = Inr a'"
  shows "a' = a \<or> (\<exists>q\<in>set (zip (pageIds fd) (pageFileNames fd)).
            a' = AList.update ''href'' (page_path index (snd q)) a)"
proof -
  let ?ps = "zip (pageIds fd) (pageFileNames fd)"
  let ?f = "filter (\<lambda>p. 0 < py_find (case_option [] id (map_of a ''onclick'')) (fst p)) ?ps"
  from page_url_tag_eq [OF assms] have e: "(n, a') = page_link fd index (n, a)" .
  show ?thesis
  proof (cases ?f)
    case Nil
    then show ?thesis using e by (simp add: page_link_def split: if_splits)
  next
    case (Cons m ms)
    have "last (m # ms) \<in> set ?f"
      unfolding Cons by (rule last_in_set) simp
    then have "last (m # ms) \<in> set ?ps" by simp
    then show ?thesis
      using e Cons by (auto simp: page_link_def split: if_splits)
  qed
qed


lemma fold_file_url_step_settled:
  assumes "inert urlpath fd index"
    and k: "k = ''href'' \<or> k = ''src''"
    and v: "map_of (fold (file_url_step index) (zip (fileIds fd) (fileNames fd)) a) k = Some v"
    and p: "p \<in> set (zip (fileIds fd) (fileNames fd))"
  shows "\<not> 0 < py_find v (fst p)"
  using fold_file_url_step_values [OF k v] inert_files(1) [OF assms(1) p] p by auto

lemma settles_anchor:
  assumes i: "inert urlpath fd index"
    and a1: "a1 = fold (file_url_step index) (zip (fileIds fd) (fileNames fd)) a"
    and a4: "a4 = a1 \<or> a4 = AList.update ''href'' ''#'' a1"
    and a5: "page_url_tag fd index ''a'' a4 = Inr a5"
  shows "fold (file_url_step index) (zip (fileIds fd) (fileNames fd)) a5 = a5"
proof (rule fold_file_url_step_noop)
  fix v p
  assume p: "p \<in> set (zip (fileIds fd) (fileNames fd))"
  note s = fold_file_url_step_settled [OF i _ _ p, of _ a]
  note f = inert_files [OF i p]
  {
    assume "map_of a5 ''href'' = Some v"
    then show "\<not> 0 < py_find v (fst p)"
      using page_url_tag_values [OF a5] a4 s [of "''href''" v] f(3,4)
      by (auto simp: a1 update_conv')
  }
  {
    assume "map_of a5 ''src'' = Some v"
    then show "\<not> 0 < py_find v (fst p)"
      using page_url_tag_values [OF a5] a4 s [of "''src''" v]
      by (auto simp: a1 update_conv')
  }
qed

lemma settles_image:
  assumes i: "inert urlpath fd index"
    and a1: "a1 = fold (file_url_step index) (zip (fileIds fd) (fileNames fd)) a"
    and a3: "image_url_tag urlpath fd index ''img'' a1 = Inr a3"
    and a4: "a4 = a3 \<or> a4 = AList.update ''href'' ''#'' a3"
  shows "fold (file_url_step index) (zip (fileIds fd) (fileNames fd)) a4 = a4"
    and "image_url_tag urlpath fd index ''img'' a4 = Inr a4"
proof -
  let ?I = "zip (imgUrls fd) (imgFileNames fd)"
  let ?m = "\<lambda>p v. py_find v ''d2lFile'' < 0 \<and> urlpath (fst p) = Inr v"
  let ?w = "\<lambda>p. formatting_path index (snd p)"
  from a3 have r0: "for_each (image_url_step urlpath index) ?I a1 = Inr a3"
    by (simp add: image_url_tag_eq)
  then have r: "for_each (replace_step ''src'' ?m ?w) ?I a1 = Inr a3"
    by (rule for_each_image_url_step_replace)
  have href3: "map_of a3 ''href'' = map_of a1 ''href''"
    using replace_others [OF r, of "''href''"] by simp
  have src4: "map_of a4 ''src'' = map_of a3 ''src''"
    using a4 by (auto simp: update_conv')
  have src3: "?I \<noteq> [] \<Longrightarrow> \<exists>v v'. map_of a1 ''src'' = Some v \<and> map_of a3 ''src'' = Some v'
      \<and> (v' \<in> ?w ` set ?I \<or> (v' = v \<and> (\<forall>p\<in>set ?I. \<not> ?m p v)))"
    using replace_values [OF r] by simp
  have same: "a3 = a1" if "?I = []"
    using r unfolding that by simp
  show "fold (file_url_step index) (zip (fileIds fd) (fileNames fd)) a4 = a4"
  proof (rule fold_file_url_step_noop)
    fix v p
    assume p: "p \<in> set (zip (fileIds fd) (fileNames fd))"
    note s = fold_file_url_step_settled [OF i _ _ p, of _ a]
    note f = inert_files [OF i p]
    {
      assume "map_of a4 ''href'' = Some v"
      then show "\<not> 0 < py_find v (fst p)"
        using a4 href3 s [of "''href''" v] f(4) by (auto simp: a1 update_conv')
    }
    {
      assume "map_of a4 ''src'' = Some v"
      then have v3: "map_of a3 ''src'' = Some v" using src4 by simp
      show "\<not> 0 < py_find v (fst p)"
      proof (cases "?I = []")
        case True
        then show ?thesis using same v3 s [of "''src''" v] by (simp add: a1)
      next
        case False
        from src3 [OF False] v3 show ?thesis
          using s [of "''src''" v] f(2) by (auto simp: a1)
      qed
    }
  qed
  show "image_url_tag urlpath fd index ''img'' a4 = Inr a4"
  proof (cases "?I = []")
    case True
    then show ?thesis by (simp add: image_url_tag_eq del: zip_eq_Nil_iff)
  next
    case False
    from src3 [OF False] obtain v v' where
      v: "map_of a1 ''src'' = Some v" "map_of a3 ''src'' = Some v'"
        "v' \<in> ?w ` set ?I \<or> (v' = v \<and> (\<forall>p\<in>set ?I. \<not> ?m p v))"
      by blast
    have s4: "map_of a4 ''src'' = Some v'"
      using src4 v(2) by simp
    have m: "\<not> ?m p v'" if p: "p \<in> set ?I" for p
    proof (cases "v' \<in> ?w ` set ?I")
      case True
      then obtain q where "q \<in> set ?I" "v' = ?w q" by auto
      then show ?thesis using inert_images [OF i p, of q] by simp
    next
      case False
      then show ?thesis using v(3) p by blast
    qed
    have "for_each (image_url_step urlpath index) ?I a4 = Inr a4"
    proof (cases "py_find v' ''d2lFile'' < 0")
      case False
      with s4 show ?thesis by (rule image_url_step_embedded)
    next
      case True
      show ?thesis
      proof (rule image_url_step_noop [OF s4])
        fix p assume p: "p \<in> set ?I"
        from image_url_step_parsed [OF r0 v(2) True p] obtain path where
          "urlpath (fst p) = Inr path" ..
        then show "\<exists>path. urlpath (fst p) = Inr path \<and> path \<noteq> v'"
          using m [OF p] True by auto
      qed
    qed
    then show ?thesis by (simp add: image_url_tag_eq)
  qed
qed

lemma settles_link:
  assumes i: "inert urlpath fd index"
    and a2: "css_url_tag fd index ''link'' a = Inr a2"
    and a4: "a4 = a2 \<or> a4 = AList.update ''href'' ''#'' a2"
  shows "css_url_tag fd index ''link'' a4 = Inr a4"
proof (cases "map_of a ''type'' = Some ''text/css''")
  case False
  then have "a2 = a" using a2 by (simp add: css_url_tag_eq)
  then have "map_of a4 ''type'' = map_of a ''type''"
    using a4 by (auto simp: update_conv')
  then show ?thesis using False by (simp add: css_url_tag_eq)
next
  case True
  let ?C = "zip (cssUrls fd) (cssFileNames fd)"
  let ?m = "\<lambda>p v. 0 < py_find (fst p) v"
  let ?w = "\<lambda>p. formatting_path index (snd p)"
  from a2 True have r: "for_each (replace_step ''href'' ?m ?w) ?C a = Inr a2"
    by (simp add: css_url_tag_eq)
  have "map_of a2 ''type'' = map_of a ''type''"
    using replace_others [OF r, of "''type''"] by simp
  then have ty: "map_of a4 ''type'' = Some ''text/css''"
    using a4 True by (auto simp: update_conv')
  show ?thesis
  proof (cases "?C = []")
    case True
    then show ?thesis by (simp add: css_url_tag_eq del: zip_eq_Nil_iff)
  next
    case False
    from replace_values [OF r False] obtain v v' where
      v: "map_of a ''href'' = Some v" "map_of a2 ''href'' = Some v'"
        "v' \<in> ?w ` set ?C \<or> (v' = v \<and> (\<forall>p\<in>set ?C. \<not> ?m p v))"
      by blast
    from a4 consider "map_of a4 ''href'' = Some v'" | "map_of a4 ''href'' = Some ''#''"
      using v(2) by (auto simp: update_conv')
    then have "for_each (replace_step ''href'' ?m ?w) ?C a4 = Inr a4"
    proof cases
      case 1
      then show ?thesis
        by (rule replace_noop) (use v(3) inert_sheets(1) [OF i] in auto)
    next
      case 2
      then show ?thesis
        by (rule replace_noop) (use inert_sheets(2) [OF i] in auto)
    qed
    then show ?thesis using ty by (simp add: css_url_tag_eq)
  qed
qed


lemma tag_settles:
  assumes i: "inert urlpath fd index"
    and "file_url_tag fd index n a = Inr a1"
    and "css_url_tag fd index n a1 = Inr a2"
    and "image_url_tag urlpath fd index n a2 = Inr a3"
    and "a4 = a3 \<or> a4 = AList.update ''href'' ''#'' a3"
    and "page_url_tag fd index n a4 = Inr a5"
  shows "file_url_tag fd index n a5 = Inr a5 \<and> css_url_tag fd index n a5 = Inr a5
         \<and> image_url_tag urlpath fd index n a5 = Inr a5 \<and> page_url_tag fd index n a5 = Inr a5"
proof -
  have n: "n = ''a'' \<or> n = ''img'' \<or> n = ''link'' \<or> (n \<noteq> ''a'' \<and> n \<noteq> ''img'' \<and> n \<noteq> ''link'')"
    by blast
  have p: "page_url_tag fd index n a5 = Inr a5"
    using assms(6) by (rule page_url_tag_idem)
  from n show ?thesis
  proof (elim disjE)
    assume n: "n = ''a''"
    then have c: "a1 = fold (file_url_step index) (zip (fileIds fd) (fileNames fd)) a"
        "a2 = a1" "a3 = a2"
      using assms(2-4) by (simp_all add: file_url_tag_eq css_url_tag_eq image_url_tag_eq)
    have "fold (file_url_step index) (zip (fileIds fd) (fileNames fd)) a5 = a5"
      using settles_anchor [OF i c(1) _ assms(6) [unfolded n]] assms(5) c by simp
    then show ?thesis
      using n p by (simp add: file_url_tag_eq css_url_tag_eq image_url_tag_eq)
  next
    assume n: "n = ''img''"
    then have c: "a1 = fold (file_url_step index) (zip (fileIds fd) (fileNames fd)) a"
        "a2 = a1" "a5 = a4"
      using assms(2,3,6) by (simp_all add: file_url_tag_eq css_url_tag_eq page_url_tag_other)
    have "fold (file_url_step index) (zip (fileIds fd) (fileNames fd)) a4 = a4"
        "image_url_tag urlpath fd index ''img'' a4 = Inr a4"
      using settles_image [OF i c(1) _ assms(5)] assms(4) n c(2) by simp_all
    then show ?thesis
      using n p c(3) by (simp add: file_url_tag_eq css_url_tag_eq)
  next
    assume n: "n = ''link''"
    then have c: "a1 = a" "a3 = a2" "a5 = a4"
      using assms(2,4,6) by (simp_all add: file_url_tag_eq image_url_tag_eq page_url_tag_other)
    have "css_url_tag fd index ''link'' a4 = Inr a4"
      using settles_link [OF i _ assms(5) [unfolded c(2)]] assms(3) n c(1) by simp
    then show ?thesis
      using n p c(3) by (simp add: file_url_tag_eq image_url_tag_eq)
  next
    assume "n \<noteq> ''a'' \<and> n \<noteq> ''img'' \<and> n \<noteq> ''link''"
    then show ?thesis
      using p by (simp add: file_url_tag_eq css_url_tag_eq image_url_tag_eq)
  qed
qed

lemma list_all2_in_set2: "list_all2 P xs ys \<Longrightarrow> y \<in> set ys \<Longrightarrow> \<exists>x\<in>set xs. P x y"
  by (induction rule: list_all2_induct) auto

lemma mark_current_tags:
  "mark_current_node first n = Inr n' \<Longrightarrow>
     list_all2 (\<lambda>t t'. fst t' = fst t
        \<and> (snd t' = snd t \<or> snd t' = AList.update ''href'' ''#'' (snd t))) (tags_of n) (tags_of n')"
  "mark_current first ns = Inr ns' \<Longrightarrow>
     list_all2 (\<lambda>t t'. fst t' = fst t
        \<and> (snd t' = snd t \<or> snd t' = AList.update ''href'' ''#'' (snd t))) (tags ns) (tags ns')"
proof (induction first n and first ns arbitrary: n' and ns'
    rule: mark_current_node_mark_current.induct)
  case (1 first s)
  then show ?case by (auto split: if_splits)
next
  case (2 first name as contents)
  then show ?case by (auto split: sum.splits if_splits)
next
  case (3 first)
  then show ?case by auto
next
  case (4 first n ns)
  from "4.prems" obtain n1 ns1 where
    r: "mark_current_node first n = Inr n1" "mark_current False ns = Inr ns1" "ns' = n1 # ns1"
    by (auto split: sum.splits)
  show ?case
    using "4.IH"(1) [OF r(1)] "4.IH"(2) [OF r(1,2)] r(3)
    by (auto intro: list_all2_appendI)
qed


text \<open>
  The documents the first loop of \<open>update_page_urls\<close> leaves: the first child of every
  \<open>div\<close> of the current page is a tag whose \<open>href\<close> is \<open>#\<close>.
\<close>

fun marked_node :: "bool \<Rightarrow> node \<Rightarrow> bool"
  and marked :: "bool \<Rightarrow> node list \<Rightarrow> bool" where
  "marked_node first (Text s) = (\<not> first)"
| "marked_node first (Tag name as contents) =
     ((first \<longrightarrow> map_of as ''href'' = Some ''#'')
      \<and> \<not> (is_current_page name as \<and> contents = [])
      \<and> marked (is_current_page name as) contents)"
| "marked first [] = True"
| "marked first (n # ns) = (marked_node first n \<and> marked False ns)"

lemma is_current_page_update:
  "is_current_page name (AList.update ''href'' v as) = is_current_page name as"
  by (simp add: is_current_page_def selects_def attr_matches_def update_conv')

lemma mark_current_marked:
  "mark_current_node first n = Inr n' \<Longrightarrow> marked_node first n'"
  "mark_current first ns = Inr ns' \<Longrightarrow> marked first ns'"
proof (induction first n and first ns arbitrary: n' and ns'
    rule: mark_current_node_mark_current.induct)
  case (1 first s)
  then show ?case by (auto split: if_splits)
next
  case (2 first name as contents)
  from "2.prems" obtain contents' where
    c: "\<not> (is_current_page name as \<and> contents = [])"
      "mark_current (is_current_page name as) contents = Inr contents'"
      "n' = Tag name (if first then AList.update ''href'' ''#'' as else as) contents'"
    by (auto split: sum.splits if_splits)
  have "contents' = [] \<Longrightarrow> contents = []"
    using c(2) by (cases contents) (auto split: sum.splits)
  then show ?case
    using "2.IH" [OF c(1,2)] c by (auto simp: is_current_page_update update_conv')
next
  case (3 first)
  then show ?case by auto
next
  case (4 first n ns)
  from "4.prems" obtain n1 ns1 where
    r: "mark_current_node first n = Inr n1" "mark_current False ns = Inr ns1" "ns' = n1 # ns1"
    by (auto split: sum.splits)
  show ?case
    using "4.IH"(1) [OF r(1)] "4.IH"(2) [OF r(1,2)] r(3) by simp
qed

lemma marked_fixed:
  "marked_node first n \<Longrightarrow> mark_current_node first n = Inr n"
  "marked first ns \<Longrightarrow> mark_current first ns = Inr ns"
  by (induction first n and first ns rule: mark_current_node_mark_current.induct)
    (auto simp: update_triv)

lemma marked_update_tags:
  assumes "\<And>name a a'. f name a = Inr a' \<Longrightarrow>
      is_current_page name a' = is_current_page name a
      \<and> (map_of a ''href'' = Some ''#'' \<longrightarrow> map_of a' ''href'' = Some ''#'')"
  shows "marked_node first n \<Longrightarrow> update_tag f n = Inr n' \<Longrightarrow> marked_node first n'"
    and "marked first ns \<Longrightarrow> update_tags f ns = Inr ns' \<Longrightarrow> marked first ns'"
proof (induction first n and first ns arbitrary: n' and ns'
    rule: mark_current_node_mark_current.induct)
  case (1 first s)
  then show ?case by auto
next
  case (2 first name as contents)
  from "2.prems"(2) obtain as' contents' where
    c: "f name as = Inr as'" "update_tags f contents = Inr contents'"
      "n' = Tag name as' contents'"
    by (auto split: sum.splits)
  have e: "contents' = [] \<Longrightarrow> contents = []"
    using c(2) by (cases contents) (auto split: sum.splits)
  have m: "marked (is_current_page name as) contents'"
    using "2.IH" [OF _ _ c(2)] "2.prems"(1) by auto
  show ?case
    using assms [OF c(1)] "2.prems"(1) c(3) e m by auto
next
  case (3 first)
  then show ?case by auto
next
  case (4 first n ns)
  from "4.prems"(2) obtain n1 ns1 where
    r: "update_tag f n = Inr n1" "update_tags f ns = Inr ns1" "ns' = n1 # ns1"
    by (auto split: sum.splits)
  from "4.prems"(1) have mn: "marked_node first n" "marked False ns"
    by simp_all
  show ?case
    using "4.IH"(1) [OF mn(1) r(1)] "4.IH"(2) [OF marked_fixed(1) [OF mn(1)] mn(2) r(2)] r(3)
    by simp
qed

lemma page_url_tag_keeps_mark:
  assumes "page_url_tag fd index name a = Inr a'"
  shows "is_current_page name a' = is_current_page name a
         \<and> (map_of a ''href'' = Some ''#'' \<longrightarrow> map_of a' ''href'' = Some ''#'')"
proof -
  have "map_of a ''href'' = Some ''#'' \<Longrightarrow> a' = a"
    using assms by (simp add: page_url_tag_def selects_def attr_matches_def)
  then show ?thesis
    using page_url_tag_values [OF assms] by (auto simp: is_current_page_update)
qed

subsection \<open>A second run that changes the document\<close>

text \<open>
  A page with two embedded files, the name of one holding the id of the other, and the
  index collected from it where the name \<open>d2lepoexport\<close> is bound and the lookup returns
  these names.
\<close>

definition two_files_page :: soup where
  "two_files_page =
     [Tag ''a'' [(''href'', ''/d2l/d2lfile?contextId=34&view=1'')] [Text ''Slides''],
      Tag ''a'' [(''href'', ''/d2l/d2lfile?contextId=12&view=1'')] [Text ''Notes'']]"

definition two_files_index :: file_dict where
  "two_files_index =
     make_file_dict\<lparr>fileUrls := [''https://example.org/d2l/d2lfile?contextId=34&view=1'',
                                  ''https://example.org/d2l/d2lfile?contextId=12&view=1''],
                     fileIds := [''34'', ''12''],
                     fileNames := [''b.pdf'', ''a34.pdf'']\<rparr>"

lemma two_files_collected:
  "populate_page ''https://example.org''
     (\<lambda>epoId. if epoId = ''34'' then Inr ''b.pdf'' else Inr ''a34.pdf'')
     two_files_page make_file_dict
   = Inr two_files_index"
  by (simp add: two_files_page_def two_files_index_def collect_eval)

lemma two_files_first_run:
  "update_links (\<lambda>u. Inr (drop 19 u)) two_files_index True two_files_page
   = Inr [Tag ''a'' [(''href'', ''./content/b.pdf'')] [Text ''Slides''],
          Tag ''a'' [(''href'', ''./content/a34.pdf'')] [Text ''Notes'']]"
  by (simp add: two_files_page_def two_files_index_def rewrite_eval)

lemma two_files_second_run:
  "update_links (\<lambda>u. Inr (drop 19 u)) two_files_index True
     [Tag ''a'' [(''href'', ''./content/b.pdf'')] [Text ''Slides''],
      Tag ''a'' [(''href'', ''./content/a34.pdf'')] [Text ''Notes'']]
   = Inr [Tag ''a'' [(''href'', ''./content/b.pdf'')] [Text ''Slides''],
          Tag ''a'' [(''href'', ''./content/b.pdf'')] [Text ''Notes'']]"
  by (simp add: two_files_index_def rewrite_eval)

text \<open>
  Claim C9, as stated: with the index frozen, a second run of the rewrite passes on the
  document they produced changes nothing, since the paths written no longer match what the
  passes look for. It fails: \<open>update_file_urls\<close> looks for a file id anywhere in the
  attribute, and the path \<open>./content/a34.pdf\<close>, written for the file 12, holds the id 34;
  the second run turns the link into \<open>./content/b.pdf\<close>.
\<close>

theorem rewrite_twice_counterexample:
  "populate_page ''https://example.org''
     (\<lambda>epoId. if epoId = ''34'' then Inr ''b.pdf'' else Inr ''a34.pdf'')
     two_files_page make_file_dict
   = Inr two_files_index
   \<and> update_links (\<lambda>u. Inr (drop 19 u)) two_files_index True two_files_page
   = Inr [Tag ''a'' [(''href'', ''./content/b.pdf'')] [Text ''Slides''],
          Tag ''a'' [(''href'', ''./content/a34.pdf'')] [Text ''Notes'']]
   \<and> update_links (\<lambda>u. Inr (drop 19 u)) two_files_index True
     [Tag ''a'' [(''href'', ''./content/b.pdf'')] [Text ''Slides''],
      Tag ''a'' [(''href'', ''./content/a34.pdf'')] [Text ''Notes'']]
   = Inr [Tag ''a'' [(''href'', ''./content/b.pdf'')] [Text ''Slides''],
          Tag ''a'' [(''href'', ''./content/b.pdf'')] [Text ''Notes'']]
   \<and> [Tag ''a'' [(''href'', ''./content/b.pdf'')] [Text ''Slides''],
      Tag ''a'' [(''href'', ''./content/b.pdf'')] [Text ''Notes'']]
   \<noteq> [Tag ''a'' [(''href'', ''./content/b.pdf'')] [Text ''Slides''],
      Tag ''a'' [(''href'', ''./content/a34.pdf'')] [Text ''Notes'']]"
  by (simp add: two_files_collected two_files_first_run two_files_second_run)

subsection \<open>A second run that changes nothing\<close>

text \<open>
  Claim C9, amended: with the index and the flag fixed, the four passes are a function of
  the document, and when the paths they write match no pattern of the index (\<open>inert\<close>),
  a second run on the document of the first run returns that document unchanged.
\<close>

theorem update_links_idempotent:
  assumes i: "inert urlpath fileDict index"
    and run: "update_links urlpath fileDict index soup = Inr soup'"
  shows "update_links urlpath fileDict index soup' = Inr soup'"
proof -
  let ?F1 = "file_url_tag fileDict index" and ?F2 = "css_url_tag fileDict index"
  let ?F3 = "image_url_tag urlpath fileDict index" and ?F4 = "page_url_tag fileDict index"
  from run obtain s1 s2 s3 s4 where
    r1: "update_tags ?F1 soup = Inr s1" and r2: "update_tags ?F2 s1 = Inr s2" and
    r3: "update_tags ?F3 s2 = Inr s3" and m: "mark_current False s3 = Inr s4" and
    r4: "update_tags ?F4 s4 = Inr soup'"
    by (auto simp: update_links_def update_file_urls_def update_css_urls_def
        update_image_urls_def update_page_urls_def split: sum.splits)
  have settled: "?F1 n a5 = Inr a5 \<and> ?F2 n a5 = Inr a5 \<and> ?F3 n a5 = Inr a5 \<and> ?F4 n a5 = Inr a5"
    if t5: "(n, a5) \<in> set (tags soup')" for n a5
  proof -
    from list_all2_in_set2 [OF update_tags_tags(2) [OF r4] t5] obtain a4 where
      t4: "(n, a4) \<in> set (tags s4)" "?F4 n a4 = Inr a5" by auto
    from list_all2_in_set2 [OF mark_current_tags(2) [OF m] t4(1)] obtain a3 where
      t3: "(n, a3) \<in> set (tags s3)" "a4 = a3 \<or> a4 = AList.update ''href'' ''#'' a3" by auto
    from list_all2_in_set2 [OF update_tags_tags(2) [OF r3] t3(1)] obtain a2 where
      t2: "(n, a2) \<in> set (tags s2)" "?F3 n a2 = Inr a3" by auto
    from list_all2_in_set2 [OF update_tags_tags(2) [OF r2] t2(1)] obtain a1 where
      t1: "(n, a1) \<in> set (tags s1)" "?F2 n a1 = Inr a2" by auto
    from list_all2_in_set2 [OF update_tags_tags(2) [OF r1] t1(1)] obtain a where
      t0: "(n, a) \<in> set (tags soup)" "?F1 n a = Inr a1" by auto
    show ?thesis
      by (rule tag_settles [OF i t0(2) t1(2) t2(2) t3(2) t4(2)])
  qed
  have "marked False s4"
    using m by (rule mark_current_marked(2))
  then have "marked False soup'"
    using r4 by (rule marked_update_tags(2) [rotated]) (rule page_url_tag_keeps_mark)
  then have m': "mark_current False soup' = Inr soup'"
    by (rule marked_fixed(2))
  have "update_tags ?F1 soup' = Inr soup'" "update_tags ?F2 soup' = Inr soup'"
    "update_tags ?F3 soup' = Inr soup'" "update_tags ?F4 soup' = Inr soup'"
    using settled by (auto intro: update_tags_id(2))
  then show ?thesis
    using m' by (simp add: update_links_def update_file_urls_def update_css_urls_def
        update_image_urls_def update_page_urls_def)
qed


text \<open>An index whose paths are inert, and a page that uses every table of it.\<close>

definition portfolio_index :: file_dict where
  "portfolio_index =
     \<lparr>pageUrls = [''https://example.org/d2l/view?id=1234'',
                  ''https://example.org/d2l/view?id=1234&pageId=5678''],
      pageFileNames = [''index.html'', ''reflections.html''],
      pageIds = [''1234'', ''5678''],
      fileUrls = [''https://example.org/d2l/d2lfile?contextId=9001&view=1''],
      fileIds = [''9001''],
      fileNames = [''report.pdf''],
      cssUrls = [''https://example.org/css/a.css?v=1''],
      cssFileNames = [''a.css''],
      imgUrls = [''https://example.org/img/bg.png''],
      imgFileNames = [''bg.png'']\<rparr>"

definition portfolio_page :: soup where
  "portfolio_page =
     [Tag ''link'' [(''type'', ''text/css''), (''href'', ''/css/a.css?v=1'')] [],
      Tag ''div'' [(''class'', ''d_t_nav_current_page'')]
        [Tag ''a'' [(''href'', ''javascript://''), (''onclick'', ''GotoPage(1234,0);'')]
           [Text ''Home'']],
      Tag ''a'' [(''href'', ''javascript://''), (''onclick'', ''GotoPage(1234,5678);'')]
        [Text ''Reflections''],
      Tag ''img'' [(''src'', ''/img/bg.png'')] [],
      Tag ''a'' [(''href'', ''/d2l/d2lfile?contextId=9001&view=1'')] [Text ''Report'']]"

lemma portfolio_inert: "inert (\<lambda>u. Inr (drop 19 u)) portfolio_index True"
  by (simp add: inert_def portfolio_index_def content_path_def formatting_path_def
      page_path_def py_find_def)

lemma portfolio_first_run:
  "update_links (\<lambda>u. Inr (drop 19 u)) portfolio_index True portfolio_page
   = Inr [Tag ''link'' [(''type'', ''text/css''), (''href'', ''./formatting/a.css'')] [],
          Tag ''div'' [(''class'', ''d_t_nav_current_page'')]
            [Tag ''a'' [(''href'', ''#''), (''onclick'', ''GotoPage(1234,0);'')]
               [Text ''Home'']],
          Tag ''a'' [(''href'', ''./pages/reflections.html''),
                     (''onclick'', ''GotoPage(1234,5678);'')]
            [Text ''Reflections''],
          Tag ''img'' [(''src'', ''./formatting/bg.png'')] [],
          Tag ''a'' [(''href'', ''./content/report.pdf'')] [Text ''Report'']]"
  by (simp add: portfolio_page_def portfolio_index_def rewrite_eval)

theorem update_links_idempotent_witness:
  "inert (\<lambda>u. Inr (drop 19 u)) portfolio_index True
   \<and> update_links (\<lambda>u. Inr (drop 19 u)) portfolio_index True portfolio_page
     = Inr [Tag ''link'' [(''type'', ''text/css''), (''href'', ''./formatting/a.css'')] [],
            Tag ''div'' [(''class'', ''d_t_nav_current_page'')]
              [Tag ''a'' [(''href'', ''#''), (''onclick'', ''GotoPage(1234,0);'')]
                 [Text ''Home'']],
            Tag ''a'' [(''href'', ''./pages/reflections.html''),
                       (''onclick'', ''GotoPage(1234,5678);'')]
              [Text ''Reflections''],
            Tag ''img'' [(''src'', ''./formatting/bg.png'')] [],
            Tag ''a'' [(''href'', ''./content/report.pdf'')] [Text ''Report'']]
   \<and> update_links (\<lambda>u. Inr (drop 19 u)) portfolio_index True
       [Tag ''link'' [(''type'', ''text/css''), (''href'', ''./formatting/a.css'')] [],
        Tag ''div'' [(''class'', ''d_t_nav_current_page'')]
          [Tag ''a'' [(''href'', ''#''), (''onclick'', ''GotoPage(1234,0);'')]
             [Text ''Home'']],
        Tag ''a'' [(''href'', ''./pages/reflections.html''),
                   (''onclick'', ''GotoPage(1234,5678);'')]
          [Text ''Reflections''],
        Tag ''img'' [(''src'', ''./formatting/bg.png'')] [],
        Tag ''a'' [(''href'', ''./content/report.pdf'')] [Text ''Report'']]
     = Inr [Tag ''link'' [(''type'', ''text/css''), (''href'', ''./formatting/a.css'')] [],
            Tag ''div'' [(''class'', ''d_t_nav_current_page'')]
              [Tag ''a'' [(''href'', ''#''), (''onclick'', ''GotoPage(1234,0);'')]
                 [Text ''Home'']],
            Tag ''a'' [(''href'', ''./pages/reflections.html''),
                       (''onclick'', ''GotoPage(1234,5678);'')]
              [Text ''Reflections''],
            Tag ''img'' [(''src'', ''./formatting/bg.png'')] [],
            Tag ''a'' [(''href'', ''./content/report.pdf'')] [Text ''Report'']]"
  using update_links_idempotent [OF portfolio_inert portfolio_first_run]
    portfolio_inert portfolio_first_run
  by simp

end
